theory Spec2Isabelle
  imports Complex_Main
begin

section \<open>Ring-road traffic simulation (IDM with a scripted leader)\<close>

text \<open>
  A shallow embedding of the class \<open>TrafficSimulation\<close> of
  \<open>Proyecto/simulacionPoo.py\<close>. \<open>ScriptFinal.py\<close> holds the same class with other
  constants (and reads \<open>self.v[leader_idx]\<close> before \<open>self.v[i]\<close> in the first loop,
  which changes nothing below).

  Python floats and numpy's float64 are modelled by the real numbers: rounding,
  infinities and NaN are outside the model. An exception of the source is a value
  \<open>Inl e\<close>. A division by zero that numpy evaluates to inf or NaN under a warning
  (the divisors \<open>V0\<close>, \<open>DT\<close>, \<open>CIRC\<close> and \<open>2 * sqrt (A_MAX * B_DECEL)\<close>) raises
  nothing in the source; the theorems that depend on such a quotient assume the
  divisor positive.

  In exact arithmetic \<open>(x / DT) * DT = x\<close>; in doubles the product can differ from \<open>x\<close>
  by a unit in the last place. So what the anti-collision rule of \<open>run_step\<close> gives
  exactly here (a displacement of at most \<open>gap - 0.5\<close>, lemma
  \<open>vel_at_follower_bound\<close>) holds in the program only up to rounding, and no theorem
  of a claim below states it: they state signs, ranges of a floored remainder,
  values left unchanged and exceptions.

  Every function of the model is deterministic by construction, so the model cannot
  express that two runs of the program produce bit-identical results.
\<close>

subsection \<open>Exceptions and array access\<close>

datatype py_error = ZeroDivisionError | ValueError | IndexError

definition bind_err :: "'e + 'a \<Rightarrow> ('a \<Rightarrow> 'e + 'b) \<Rightarrow> 'e + 'b" where
  "bind_err m f = (case m of Inl e \<Rightarrow> Inl e | Inr x \<Rightarrow> f x)"

text \<open>Reading \<open>a[j]\<close> of a one-dimensional numpy array: a negative index counts from
  the end, anything out of range raises IndexError.\<close>

definition np_get :: "real list \<Rightarrow> int \<Rightarrow> py_error + real" where
  "np_get a j =
     (let n = int (length a) in
      if 0 \<le> j \<and> j < n then Inr (a ! nat j)
      else if - n \<le> j \<and> j < 0 then Inr (a ! nat (n + j))
      else Inl IndexError)"

text \<open>The assignment \<open>a[j] = x\<close>.\<close>

definition np_set :: "real list \<Rightarrow> int \<Rightarrow> real \<Rightarrow> py_error + real list" where
  "np_set a j x =
     (let n = int (length a) in
      if 0 \<le> j \<and> j < n then Inr (a[nat j := x])
      else if - n \<le> j \<and> j < 0 then Inr (a[nat (n + j) := x])
      else Inl IndexError)"

text \<open>\<open>x % y\<close> on Python floats: the result has the sign of the divisor, a zero divisor
  raises.\<close>

definition float_mod :: "real \<Rightarrow> real \<Rightarrow> py_error + real" where
  "float_mod x y =
     (if y = 0 then Inl ZeroDivisionError else Inr (x - y * of_int \<lfloor>x / y\<rfloor>))"

text \<open>\<open>x % y\<close> where \<open>x\<close> is a numpy float64: the same value for a nonzero divisor, and
  no exception.\<close>

definition np_mod :: "real \<Rightarrow> real \<Rightarrow> real" where
  "np_mod x y = x - y * of_int \<lfloor>x / y\<rfloor>"

text \<open>\<open>math.sqrt\<close> raises ValueError on a negative argument.\<close>

definition math_sqrt :: "real \<Rightarrow> py_error + real" where
  "math_sqrt x = (if x < 0 then Inl ValueError else Inr (sqrt x))"

text \<open>A \<open>for\<close> loop over a list of indices, stopping at the first exception.\<close>

fun for_each :: "('i \<Rightarrow> 'b \<Rightarrow> 'e + 'b) \<Rightarrow> 'i list \<Rightarrow> 'b \<Rightarrow> 'e + 'b" where
  "for_each body [] st = Inr st"
| "for_each body (i # is) st =
     (case body i st of Inl e \<Rightarrow> Inl e | Inr st' \<Rightarrow> for_each body is st')"

text \<open>\<open>range(n)\<close>.\<close>

definition py_range :: "int \<Rightarrow> int list" where
  "py_range n = map int [0..<nat n]"

subsection \<open>The object\<close>

text \<open>The attributes that \<open>__init__\<close> sets from constants.\<close>

record params =
  N :: int
  CIRC :: real
  DT :: real
  SIM_TIME :: real
  L_VEHICLE :: real
  S0 :: real
  V0 :: real
  A_MAX :: real
  B_DECEL :: real
  T_HEADWAY :: real
  STOP_DURATION :: real
  FIRST_STOP :: real
  REPEAT_INTERVAL :: real

text \<open>The whole object: the parameters, the positions \<open>s\<close>, the velocities \<open>v\<close> and the
  two Matplotlib handles (a handle is an opaque number here).\<close>

record TrafficSimulation = params +
  s :: "real list"
  v :: "real list"
  fig :: "nat option"
  ax :: "nat option"

text \<open>The constants of \<open>Proyecto/simulacionPoo.py\<close> and of \<open>ScriptFinal.py\<close>.\<close>

definition simulacionPoo_params :: params where
  "simulacionPoo_params =
     \<lparr>N = 22, CIRC = 230, DT = 0.05, SIM_TIME = 1200, L_VEHICLE = 4, S0 = 2,
      V0 = 10, A_MAX = 1, B_DECEL = 4, T_HEADWAY = 1.6,
      STOP_DURATION = 2, FIRST_STOP = 2, REPEAT_INTERVAL = 10\<rparr>"

definition ScriptFinal_params :: params where
  "ScriptFinal_params =
     \<lparr>N = 20, CIRC = 230, DT = 0.05, SIM_TIME = 1200, L_VEHICLE = 4, S0 = 2,
      V0 = 15, A_MAX = 0.8, B_DECEL = 4, T_HEADWAY = 1.6,
      STOP_DURATION = 6, FIRST_STOP = 2, REPEAT_INTERVAL = 15\<rparr>"

text \<open>\<open>np.linspace(0, stop, num, endpoint=False)\<close>: \<open>arange(num) * (stop / num)\<close>; a
  negative \<open>num\<close> raises ValueError.\<close>

definition np_linspace0 :: "real \<Rightarrow> int \<Rightarrow> py_error + real list" where
  "np_linspace0 stop num =
     (if num < 0 then Inl ValueError
      else Inr (map (\<lambda>k. real k * (stop / of_int num)) [0..<nat num]))"

text \<open>\<open>np.ones(num) * x\<close>.\<close>

definition np_ones_times :: "int \<Rightarrow> real \<Rightarrow> py_error + real list" where
  "np_ones_times num x =
     (if num < 0 then Inl ValueError else Inr (replicate (nat num) (1 * x)))"

text \<open>\<open>__init__\<close>, with the constants it assigns taken as the argument: it checks
  nothing and builds the initial positions and velocities.\<close>

definition init :: "params \<Rightarrow> py_error + TrafficSimulation" where
  "init p =
     bind_err (np_linspace0 (CIRC p) (N p)) (\<lambda>s0.
     bind_err (np_ones_times (N p) (V0 p)) (\<lambda>v0.
     Inr \<lparr>N = N p, CIRC = CIRC p, DT = DT p, SIM_TIME = SIM_TIME p,
          L_VEHICLE = L_VEHICLE p, S0 = S0 p, V0 = V0 p, A_MAX = A_MAX p,
          B_DECEL = B_DECEL p, T_HEADWAY = T_HEADWAY p,
          STOP_DURATION = STOP_DURATION p, FIRST_STOP = FIRST_STOP p,
          REPEAT_INTERVAL = REPEAT_INTERVAL p,
          s = s0, v = v0, fig = None, ax = None\<rparr>))"

subsection \<open>The model's methods\<close>

definition get_gap :: "TrafficSimulation \<Rightarrow> int \<Rightarrow> real list \<Rightarrow> py_error + real" where
  "get_gap self i s_curr =
     (if N self = 0 then Inl ZeroDivisionError
      else
        let leader_idx = (i - 1 + N self) mod N self in
        bind_err (np_get s_curr leader_idx) (\<lambda>sl.
        bind_err (np_get s_curr i) (\<lambda>si.
        let dist = sl - si;
            dist = (if dist < 0 then dist + CIRC self else dist)
        in Inr (dist - L_VEHICLE self))))"

definition idm_accel :: "TrafficSimulation \<Rightarrow> real \<Rightarrow> real \<Rightarrow> real \<Rightarrow> py_error + real" where
  "idm_accel self v_curr v_leader gap =
     (let delta_v = v_curr - v_leader in
      bind_err (math_sqrt (A_MAX self * B_DECEL self)) (\<lambda>r.
      let s_star = S0 self + max 0 (v_curr * T_HEADWAY self + (v_curr * delta_v) / (2 * r));
          effective_gap = max 0.01 gap;
          accel = A_MAX self * (1 - (v_curr / V0 self) ^ 4 - (s_star / effective_gap) ^ 2)
      in Inr accel))"

definition leader_stopped :: "TrafficSimulation \<Rightarrow> real \<Rightarrow> py_error + bool" where
  "leader_stopped self t =
     (let time_since_start = t - FIRST_STOP self in
      if time_since_start \<ge> 0 then
        bind_err (float_mod time_since_start (REPEAT_INTERVAL self)) (\<lambda>cycle_pos.
        Inr (cycle_pos < STOP_DURATION self))
      else Inr False)"

text \<open>The body of the first loop of \<open>run_step\<close> (accelerations); the loop state is
  \<open>(accel, v_new)\<close>.\<close>

definition accel_body ::
  "TrafficSimulation \<Rightarrow> bool \<Rightarrow> int \<Rightarrow> real list \<times> real list \<Rightarrow> py_error + real list \<times> real list"
where
  "accel_body self p0_is_stopped i st =
     (case st of (accel, v_new) \<Rightarrow>
      if i = 0 then
        (if p0_is_stopped then
           bind_err (np_get (v self) i) (\<lambda>vi.
           if vi > 0 then
             bind_err (np_set accel i (- 10)) (\<lambda>accel'. Inr (accel', v_new))
           else
             bind_err (np_set accel i 0) (\<lambda>accel'.
             bind_err (np_set v_new i 0) (\<lambda>v_new'. Inr (accel', v_new'))))
         else
           bind_err (np_get (v self) i) (\<lambda>vi.
           bind_err (np_set accel i (A_MAX self * (1 - (vi / V0 self) ^ 4))) (\<lambda>accel'.
           Inr (accel', v_new))))
      else if N self = 0 then Inl ZeroDivisionError
      else
        let leader_idx = (i - 1 + N self) mod N self in
        bind_err (get_gap self i (s self)) (\<lambda>gap.
        bind_err (np_get (v self) i) (\<lambda>vi.
        bind_err (np_get (v self) leader_idx) (\<lambda>vl.
        bind_err (idm_accel self vi vl gap) (\<lambda>a.
        bind_err (np_set accel i a) (\<lambda>accel'. Inr (accel', v_new)))))))"

text \<open>The body of the second loop (Euler step and anti-collision rule); the loop state
  is \<open>(s_new, v_new)\<close>, and \<open>continue\<close> returns it unchanged.\<close>

definition euler_body ::
  "TrafficSimulation \<Rightarrow> bool \<Rightarrow> real list \<Rightarrow> int \<Rightarrow> real list \<times> real list
     \<Rightarrow> py_error + real list \<times> real list"
where
  "euler_body self p0_is_stopped accel i st =
     (case st of (s_new, v_new) \<Rightarrow>
      bind_err (if i = 0 \<and> p0_is_stopped
                then bind_err (np_get v_new i) (\<lambda>x. Inr (x = 0)) else Inr False) (\<lambda>skip.
      if skip then Inr (s_new, v_new)
      else
        bind_err (np_get (v self) i) (\<lambda>vi.
        bind_err (np_get accel i) (\<lambda>ai.
        bind_err (np_set v_new i (max 0 (vi + ai * DT self))) (\<lambda>v_new1.
        bind_err (np_get (s self) i) (\<lambda>si.
        bind_err (np_get v_new1 i) (\<lambda>vn.
        bind_err (np_set s_new i (np_mod (si + vn * DT self) (CIRC self))) (\<lambda>s_new1.
        if i \<noteq> 0 then
          bind_err (get_gap self i (s self)) (\<lambda>gap.
          bind_err (np_get v_new1 i) (\<lambda>vn.
          if vn * DT self > gap - 0.5 then
            bind_err (np_set v_new1 i (max 0 ((gap - 0.5) / DT self))) (\<lambda>v_new2.
            bind_err (np_get (s self) i) (\<lambda>si.
            bind_err (np_get v_new2 i) (\<lambda>vn2.
            bind_err (np_set s_new1 i (np_mod (si + vn2 * DT self) (CIRC self))) (\<lambda>s_new2.
            Inr (s_new2, v_new2)))))
          else Inr (s_new1, v_new1)))
        else Inr (s_new1, v_new1)))))))))"

text \<open>\<open>run_step\<close>: \<open>np.zeros(self.N)\<close> raises ValueError for a negative \<open>N\<close>; the new
  arrays replace the old ones at the end.\<close>

definition run_step :: "TrafficSimulation \<Rightarrow> real \<Rightarrow> py_error + TrafficSimulation" where
  "run_step self t =
     (if N self < 0 then Inl ValueError
      else
        bind_err (leader_stopped self t) (\<lambda>p0_is_stopped.
        bind_err (for_each (accel_body self p0_is_stopped) (py_range (N self))
                    (replicate (nat (N self)) 0, v self)) (\<lambda>(accel, v_new).
        bind_err (for_each (euler_body self p0_is_stopped accel) (py_range (N self))
                    (s self, v_new)) (\<lambda>(s_new, v_new').
        Inr (self\<lparr>s := s_new, v := v_new'\<rparr>)))))"

text \<open>Calling \<open>run_step\<close> once for each time of a list, in order.\<close>

fun run_steps :: "TrafficSimulation \<Rightarrow> real list \<Rightarrow> py_error + TrafficSimulation" where
  "run_steps self [] = Inr self"
| "run_steps self (t # ts) =
     (case run_step self t of Inl e \<Rightarrow> Inl e | Inr self' \<Rightarrow> run_steps self' ts)"

subsection \<open>Well-formed objects\<close>

text \<open>The arrays hold one entry for each vehicle, as \<open>__init__\<close> builds them.\<close>

definition wf_state :: "TrafficSimulation \<Rightarrow> bool" where
  "wf_state self \<longleftrightarrow> 0 \<le> N self \<and> length (s self) = nat (N self) \<and> length (v self) = nat (N self)"

text \<open>The parameter ranges of the data model: a vehicle count of at least one, positive
  circumference, time step, IDM constants and repeat interval, and non-negative lengths
  and times.\<close>

definition valid_params :: "'a params_scheme \<Rightarrow> bool" where
  "valid_params p \<longleftrightarrow>
     1 \<le> N p \<and> 0 < CIRC p \<and> 0 < DT p \<and> 0 \<le> L_VEHICLE p \<and> 0 \<le> S0 p \<and>
     0 < V0 p \<and> 0 < A_MAX p \<and> 0 < B_DECEL p \<and> 0 < T_HEADWAY p \<and>
     0 \<le> STOP_DURATION p \<and> 0 \<le> FIRST_STOP p \<and> 0 < REPEAT_INTERVAL p"

subsection \<open>One iteration in closed form\<close>

text \<open>What the two loops of \<open>run_step\<close> compute for vehicle \<open>k\<close> of a well-formed
  object, written without the arrays; \<open>run_step_closed_form\<close> below proves that the
  loops compute exactly this. \<open>p0\<close> is the value of \<open>p0_is_stopped\<close>.\<close>

definition leader_idx_of :: "int \<Rightarrow> nat \<Rightarrow> nat" where
  "leader_idx_of m k = nat ((int k - 1 + m) mod m)"

definition gap_at :: "TrafficSimulation \<Rightarrow> nat \<Rightarrow> real" where
  "gap_at self k =
     (let d = s self ! leader_idx_of (N self) k - s self ! k
      in (if d < 0 then d + CIRC self else d) - L_VEHICLE self)"

definition acc_at :: "TrafficSimulation \<Rightarrow> bool \<Rightarrow> nat \<Rightarrow> real" where
  "acc_at self p0 k =
     (if k = 0 then
        (if p0 then (if v self ! 0 > 0 then - 10 else 0)
         else A_MAX self * (1 - (v self ! 0 / V0 self) ^ 4))
      else
        A_MAX self *
          (1 - (v self ! k / V0 self) ^ 4
             - ((S0 self + max 0 (v self ! k * T_HEADWAY self
                   + (v self ! k * (v self ! k - v self ! leader_idx_of (N self) k))
                     / (2 * sqrt (A_MAX self * B_DECEL self))))
                / max 0.01 (gap_at self k)) ^ 2))"

text \<open>The leader is skipped by the second loop (\<open>continue\<close>).\<close>

definition pinned :: "TrafficSimulation \<Rightarrow> bool \<Rightarrow> nat \<Rightarrow> bool" where
  "pinned self p0 k \<longleftrightarrow> k = 0 \<and> p0 \<and> \<not> v self ! 0 > 0"

definition vel_at :: "TrafficSimulation \<Rightarrow> bool \<Rightarrow> nat \<Rightarrow> real" where
  "vel_at self p0 k =
     (if pinned self p0 k then 0
      else
        let v1 = max 0 (v self ! k + acc_at self p0 k * DT self) in
        if k \<noteq> 0 \<and> v1 * DT self > gap_at self k - 0.5
        then max 0 ((gap_at self k - 0.5) / DT self) else v1)"

definition pos_at :: "TrafficSimulation \<Rightarrow> bool \<Rightarrow> nat \<Rightarrow> real" where
  "pos_at self p0 k =
     (if pinned self p0 k then s self ! k
      else np_mod (s self ! k + vel_at self p0 k * DT self) (CIRC self))"

text \<open>\<open>v_new\<close> between the two loops, and the invariants of the two loops.\<close>

definition v_mid :: "TrafficSimulation \<Rightarrow> bool \<Rightarrow> real list" where
  "v_mid self p0 = (if 0 < N self \<and> pinned self p0 0 then (v self)[0 := 0] else v self)"

definition accel_inv :: "TrafficSimulation \<Rightarrow> bool \<Rightarrow> nat \<Rightarrow> real list \<times> real list \<Rightarrow> bool" where
  "accel_inv self p0 k st \<longleftrightarrow>
     length (fst st) = nat (N self) \<and>
     (\<forall>j<k. fst st ! j = acc_at self p0 j) \<and>
     snd st = (if 0 < k \<and> pinned self p0 0 then (v self)[0 := 0] else v self)"

definition euler_inv :: "TrafficSimulation \<Rightarrow> bool \<Rightarrow> nat \<Rightarrow> real list \<times> real list \<Rightarrow> bool" where
  "euler_inv self p0 k st \<longleftrightarrow>
     length (fst st) = nat (N self) \<and> length (snd st) = nat (N self) \<and>
     (\<forall>j<k. fst st ! j = pos_at self p0 j \<and> snd st ! j = vel_at self p0 j) \<and>
     (\<forall>j. k \<le> j \<and> j < nat (N self) \<longrightarrow>
        fst st ! j = s self ! j \<and> snd st ! j = v_mid self p0 ! j)"

text \<open>All positions lie on the ring.\<close>

definition in_ring :: "TrafficSimulation \<Rightarrow> bool" where
  "in_ring self \<longleftrightarrow> (\<forall>i<nat (N self). 0 \<le> s self ! i \<and> s self ! i < CIRC self)"

subsection \<open>Concrete objects\<close>

text \<open>A ring of three vehicles at rest, ten metres apart, with the leader's first stop
  at two seconds.\<close>

definition ring3 :: TrafficSimulation where
  "ring3 =
     \<lparr>N = 3, CIRC = 30, DT = 0.05, SIM_TIME = 1200, L_VEHICLE = 2, S0 = 2,
      V0 = 10, A_MAX = 1, B_DECEL = 4, T_HEADWAY = 1.6,
      STOP_DURATION = 2, FIRST_STOP = 2, REPEAT_INTERVAL = 10,
      s = [0, 10, 20], v = [0, 0, 0], fig = None, ax = None\<rparr>"

text \<open>Two vehicles of four metres on a ring of ten metres: the constants of
  \<open>simulacionPoo.py\<close> with \<open>N = 2\<close> and \<open>CIRC = 10\<close>, and the object that \<open>__init__\<close>
  builds from them.\<close>

definition tight_params :: params where
  "tight_params = simulacionPoo_params\<lparr>N := 2, CIRC := 10\<rparr>"

definition tight_ring :: TrafficSimulation where
  "tight_ring =
     \<lparr>N = 2, CIRC = 10, DT = 0.05, SIM_TIME = 1200, L_VEHICLE = 4, S0 = 2,
      V0 = 10, A_MAX = 1, B_DECEL = 4, T_HEADWAY = 1.6,
      STOP_DURATION = 2, FIRST_STOP = 2, REPEAT_INTERVAL = 10,
      s = [0, 5], v = [10, 10], fig = None, ax = None\<rparr>"

text \<open>A single vehicle: the constants of \<open>simulacionPoo.py\<close> with \<open>N = 1\<close>, and the
  object that \<open>__init__\<close> builds from them.\<close>

definition single_vehicle :: TrafficSimulation where
  "single_vehicle =
     \<lparr>N = 1, CIRC = 230, DT = 0.05, SIM_TIME = 1200, L_VEHICLE = 4, S0 = 2,
      V0 = 10, A_MAX = 1, B_DECEL = 4, T_HEADWAY = 1.6,
      STOP_DURATION = 2, FIRST_STOP = 2, REPEAT_INTERVAL = 10,
      s = [0], v = [10], fig = None, ax = None\<rparr>"

text \<open>The object of \<open>simulacionPoo.py\<close> with positions \<open>xs\<close> and velocities \<open>vs\<close>.\<close>

definition poo :: "real list \<Rightarrow> real list \<Rightarrow> TrafficSimulation" where
  "poo xs vs =
     \<lparr>N = 22, CIRC = 230, DT = 0.05, SIM_TIME = 1200, L_VEHICLE = 4, S0 = 2,
      V0 = 10, A_MAX = 1, B_DECEL = 4, T_HEADWAY = 1.6,
      STOP_DURATION = 2, FIRST_STOP = 2, REPEAT_INTERVAL = 10,
      s = xs, v = vs, fig = None, ax = None\<rparr>"

subsection \<open>The run of \<open>simulacionPoo.py\<close>\<close>

text \<open>The times of the first \<open>n\<close> calls of \<open>run_step\<close> in \<open>run\<close>: \<open>t\<close> starts at 0 and
  grows by \<open>DT\<close> after each call. The sums are exact here. In doubles the accumulated
  \<open>t\<close> of \<open>simulacionPoo.py\<close> first falls on the other side of a bound of the leader's
  schedule at the 81st call (just below 4 instead of 4); the runs used below are
  shorter.\<close>

definition run_times :: "'a params_scheme \<Rightarrow> nat \<Rightarrow> real list" where
  "run_times p n = map (\<lambda>k. real k * DT p) [0..<n]"

text \<open>The gap of vehicle \<open>i\<close> in the object built from the constants \<open>p\<close>, after calls of
  \<open>run_step\<close> at the times \<open>ts\<close>.\<close>

definition gap_after :: "params \<Rightarrow> real list \<Rightarrow> int \<Rightarrow> py_error + real" where
  "gap_after p ts i =
     bind_err (init p) (\<lambda>self0.
     bind_err (run_steps self0 ts) (\<lambda>self'. get_gap self' i (s self')))"

text \<open>For the proof about that run: the leader's velocity and the distance it has
  travelled after \<open>k\<close> calls (it keeps \<open>V0\<close> for the 40 calls before \<open>FIRST_STOP\<close>, then
  loses 0.5 a call until it stands), and the invariant of the first 75 calls, in which
  \<open>X i\<close> is the distance vehicle \<open>i\<close> has travelled.\<close>

fun lead_v :: "nat \<Rightarrow> real" where
  "lead_v 0 = 10"
| "lead_v (Suc k) = (if k < 40 then lead_v k else max 0 (lead_v k - 1 / 2))"

fun lead_x :: "nat \<Rightarrow> real" where
  "lead_x 0 = 0"
| "lead_x (Suc k) = lead_x k + lead_v (Suc k) * 0.05"

definition poo_inv :: "nat \<Rightarrow> TrafficSimulation \<Rightarrow> bool" where
  "poo_inv k self \<longleftrightarrow>
     (\<exists>xs vs X. self = poo xs vs \<and> length xs = 22 \<and> length vs = 22 \<and>
        vs ! 0 = lead_v k \<and> X 0 = lead_x k \<and>
        (\<forall>i. 0 < i \<and> i < 22 \<longrightarrow>
           61 / 125 * real k \<le> X i \<and> X i \<le> 1 / 2 * real k \<and>
           10 - 3 / 1000 * real k \<le> vs ! i \<and> vs ! i \<le> 10) \<and>
        (\<forall>i<22. xs ! i = np_mod (real i * (230 / 22) + X i) 230))"

subsection \<open>Runs of the ring of two vehicles\<close>

text \<open>The invariant of calls 1 to 11 of the run of \<open>tight_ring\<close>: the leader keeps
  \<open>V0\<close>, the follower stays within 0.25 m of its place.\<close>

definition tight_inv :: "nat \<Rightarrow> TrafficSimulation \<Rightarrow> bool" where
  "tight_inv k self \<longleftrightarrow>
     (\<exists>x w. self = tight_ring\<lparr>s := [real k / 2, x], v := [10, w]\<rparr> \<and>
        0 \<le> w \<and> w \<le> (real k - 1) / 20 \<and> 5 \<le> x \<and> x \<le> 5 + (real k - 1) / 40)"

subsection \<open>Runs in which a follower is not lapped\<close>

text \<open>In no call of the run at the times \<open>ts\<close> does the leader of follower \<open>i\<close> come round
  the ring onto it: the follower's distance to its leader before the call
  (\<open>gap + L_VEHICLE\<close>) plus the leader's displacement in the call stays below \<open>CIRC\<close>.\<close>

fun no_lapping :: "TrafficSimulation \<Rightarrow> real list \<Rightarrow> nat \<Rightarrow> bool" where
  "no_lapping self [] i = True"
| "no_lapping self (t # ts) i =
     (case get_gap self (int i) (s self) of
        Inl e \<Rightarrow> False
      | Inr g \<Rightarrow>
          (case run_step self t of
             Inl e \<Rightarrow> False
           | Inr self' \<Rightarrow>
               g + L_VEHICLE self + v self' ! (i - 1) * DT self < CIRC self \<and>
               no_lapping self' ts i))"

section \<open>The loops of \<open>run_step\<close>\<close>

lemma bind_err_Inr [simp]: "bind_err (Inr x) f = f x"
  by (simp add: bind_err_def)

lemma bind_err_Inl [simp]: "bind_err (Inl e) f = Inl e"
  by (simp add: bind_err_def)

lemma np_get_nat [simp]: "k < length a \<Longrightarrow> np_get a (int k) = Inr (a ! k)"
  by (simp add: np_get_def)

lemma np_set_nat [simp]: "k < length a \<Longrightarrow> np_set a (int k) x = Inr (a[k := x])"
  by (simp add: np_set_def)

lemma np_get_0 [simp]: "0 < length a \<Longrightarrow> np_get a 0 = Inr (a ! 0)"
  by (simp add: np_get_def)

lemma np_set_0 [simp]: "0 < length a \<Longrightarrow> np_set a 0 x = Inr (a[0 := x])"
  by (simp add: np_set_def)

lemma leader_idx_of_lt: "0 < m \<Longrightarrow> leader_idx_of m k < nat m"
  by (simp add: leader_idx_of_def nat_less_iff)

lemma leader_idx_of_int: "0 < m \<Longrightarrow> (int k - 1 + m) mod m = int (leader_idx_of m k)"
  by (simp add: leader_idx_of_def)

lemma leader_idx_of_pred: "0 < k \<Longrightarrow> int k < m \<Longrightarrow> leader_idx_of m k = k - 1"
  by (simp add: leader_idx_of_def nat_eq_iff)

lemma get_gap_nat:
  assumes "wf_state self" "k < nat (N self)"
  shows "get_gap self (int k) (s self) = Inr (gap_at self k)"
proof -
  have m: "0 < N self" "k < length (s self)" "N self \<noteq> 0"
    using assms by (auto simp: wf_state_def)
  have l: "leader_idx_of (N self) k < length (s self)"
    using leader_idx_of_lt [OF m(1)] assms by (simp add: wf_state_def)
  show ?thesis
    unfolding get_gap_def gap_at_def leader_idx_of_int [OF m(1)]
    using m l by (simp add: Let_def)
qed

lemma for_each_append:
  "for_each body (xs @ ys) st = bind_err (for_each body xs st) (for_each body ys)"
  by (induction xs arbitrary: st) (auto split: sum.splits)

lemma py_range_Suc: "py_range (int (Suc n)) = py_range (int n) @ [int n]"
  unfolding py_range_def nat_int by simp

lemma for_each_range_inv:
  assumes init: "I 0 st0"
    and step: "\<And>k st. k < n \<Longrightarrow> I k st \<Longrightarrow> \<exists>st'. body (int k) st = Inr st' \<and> I (Suc k) st'"
  shows "\<exists>st'. for_each body (py_range (int n)) st0 = Inr st' \<and> I n st'"
  using step
proof (induction n)
  case 0
  then show ?case using init by (simp add: py_range_def)
next
  case (Suc n)
  then obtain st1 where st1: "for_each body (py_range (int n)) st0 = Inr st1" "I n st1"
    by (metis less_Suc_eq)
  from Suc.prems [of n st1] st1 obtain st2 where "body (int n) st1 = Inr st2" "I (Suc n) st2"
    by auto
  then show ?case using st1
    unfolding py_range_Suc for_each_append by simp
qed

lemma idm_accel_ok:
  "0 \<le> A_MAX self * B_DECEL self \<Longrightarrow>
   idm_accel self vi vl g =
     Inr (A_MAX self * (1 - (vi / V0 self) ^ 4
            - ((S0 self + max 0 (vi * T_HEADWAY self
                 + (vi * (vi - vl)) / (2 * sqrt (A_MAX self * B_DECEL self))))
               / max 0.01 g) ^ 2))"
  by (simp add: idm_accel_def math_sqrt_def Let_def)

lemma accel_body_step:
  assumes wf: "wf_state self"
    and sq: "0 \<le> A_MAX self * B_DECEL self \<or> N self \<le> 1"
    and k: "k < nat (N self)"
    and inv: "accel_inv self p0 k st"
  shows "\<exists>st'. accel_body self p0 (int k) st = Inr st' \<and> accel_inv self p0 (Suc k) st'"
proof -
  obtain accel v_new where st: "st = (accel, v_new)" by (cases st)
  have len: "length accel = nat (N self)" "length (v self) = nat (N self)"
    "length (s self) = nat (N self)" "0 < N self"
    using inv wf k by (auto simp: accel_inv_def st wf_state_def)
  have old: "\<forall>j<k. accel ! j = acc_at self p0 j"
    using inv by (simp add: accel_inv_def st)
  show ?thesis
  proof (cases "k = 0")
    case True
    then have vn: "v_new = v self" using inv by (simp add: accel_inv_def st)
    show ?thesis
      using True len k vn
      by (simp add: accel_body_def st accel_inv_def acc_at_def pinned_def)
  next
    case False
    then have sq': "0 \<le> A_MAX self * B_DECEL self" using sq k by auto
    have l: "leader_idx_of (N self) k < length (v self)"
      using leader_idx_of_lt len by simp
    have nz: "int k \<noteq> 0" "N self \<noteq> 0" using False len by auto
    have vi: "np_get (v self) (int k) = Inr (v self ! k)"
      using k len by simp
    have vl: "np_get (v self) ((int k - 1 + N self) mod N self)
                = Inr (v self ! leader_idx_of (N self) k)"
      unfolding leader_idx_of_int [OF len(4)] using l by (rule np_get_nat)
    have a: "idm_accel self (v self ! k) (v self ! leader_idx_of (N self) k) (gap_at self k)
               = Inr (acc_at self p0 k)"
      using False by (simp add: idm_accel_ok [OF sq'] acc_at_def)
    have up: "\<And>x. np_set accel (int k) x = Inr (accel[k := x])"
      using k len by simp
    have body: "accel_body self p0 (int k) (accel, v_new) = Inr (accel[k := acc_at self p0 k], v_new)"
      by (simp only: accel_body_def prod.case nz if_False Let_def get_gap_nat [OF wf k]
          vi vl a up bind_err_Inr)
    have vn: "v_new = (if pinned self p0 0 then (v self)[0 := 0] else v self)"
      using inv False by (simp add: accel_inv_def st)
    have "accel_inv self p0 (Suc k) (accel[k := acc_at self p0 k], v_new)"
      using old k len vn by (auto simp: accel_inv_def less_Suc_eq)
    then show ?thesis using body st by simp
  qed
qed

lemma accel_loop:
  assumes wf: "wf_state self"
    and sq: "0 \<le> A_MAX self * B_DECEL self \<or> N self \<le> 1"
  shows "for_each (accel_body self p0) (py_range (N self)) (replicate (nat (N self)) 0, v self)
         = Inr (map (acc_at self p0) [0..<nat (N self)],
                if 0 < N self \<and> pinned self p0 0 then (v self)[0 := 0] else v self)"
proof -
  have N: "N self = int (nat (N self))" using wf by (simp add: wf_state_def)
  have "\<exists>st'. for_each (accel_body self p0) (py_range (int (nat (N self))))
            (replicate (nat (N self)) 0, v self) = Inr st'
          \<and> accel_inv self p0 (nat (N self)) st'"
  proof (rule for_each_range_inv)
    show "accel_inv self p0 0 (replicate (nat (N self)) 0, v self)"
      by (simp add: accel_inv_def)
  next
    fix k st
    assume "k < nat (N self)" "accel_inv self p0 k st"
    then show "\<exists>st'. accel_body self p0 (int k) st = Inr st' \<and> accel_inv self p0 (Suc k) st'"
      by (rule accel_body_step [OF wf sq])
  qed
  then obtain st' where r: "for_each (accel_body self p0) (py_range (N self))
            (replicate (nat (N self)) 0, v self) = Inr st'"
      and i: "accel_inv self p0 (nat (N self)) st'"
    using N by auto
  have "fst st' = map (acc_at self p0) [0..<nat (N self)]"
    using i by (intro nth_equalityI) (simp_all add: accel_inv_def)
  moreover have "snd st' = (if 0 < N self \<and> pinned self p0 0 then (v self)[0 := 0] else v self)"
    using i by (simp add: accel_inv_def)
  ultimately show ?thesis using r by (simp add: prod_eq_iff)
qed

lemma euler_body_eq:
  assumes wf: "wf_state self"
    and k: "k < nat (N self)"
    and len: "length s_new = nat (N self)" "length v_new = nat (N self)"
    and v0: "k = 0 \<Longrightarrow> v_new ! 0 = v_mid self p0 ! 0"
  shows "euler_body self p0 (map (acc_at self p0) [0..<nat (N self)]) (int k) (s_new, v_new)
         = Inr (if pinned self p0 k then (s_new, v_new)
                else (s_new[k := pos_at self p0 k], v_new[k := vel_at self p0 k]))"
proof -
  have l: "length (v self) = nat (N self)" "length (s self) = nat (N self)" "0 < N self"
    using wf k by (auto simp: wf_state_def)
  have ai: "np_get (map (acc_at self p0) [0..<nat (N self)]) (int k) = Inr (acc_at self p0 k)"
    using k by simp
  show ?thesis
  proof (cases "k = 0")
    case True
    have vm: "v_new ! 0 = (if pinned self p0 0 then 0 else v self ! 0)"
      using v0 [OF True] l k by (simp add: v_mid_def)
    have a0: "np_get (map (acc_at self p0) [0..<nat (N self)]) 0 = Inr (acc_at self p0 0)"
      using ai True by simp
    show ?thesis
      using True k l len vm a0
      by (auto simp: euler_body_def pinned_def vel_at_def pos_at_def)
  next
    case False
    have nz: "int k \<noteq> 0" using False by simp
    have np: "\<not> pinned self p0 k" using False by (simp add: pinned_def)
    have g: "get_gap self (int k) (s self) = Inr (gap_at self k)"
      by (rule get_gap_nat [OF wf k])
    show ?thesis
      unfolding euler_body_def prod.case
      using False k l len np
      by (simp add: nz g ai vel_at_def pos_at_def Let_def)
  qed
qed

lemma euler_body_step:
  assumes wf: "wf_state self"
    and k: "k < nat (N self)"
    and inv: "euler_inv self p0 k st"
  shows "\<exists>st'. euler_body self p0 (map (acc_at self p0) [0..<nat (N self)]) (int k) st = Inr st'
           \<and> euler_inv self p0 (Suc k) st'"
proof -
  obtain s_new v_new where st: "st = (s_new, v_new)" by (cases st)
  have len: "length s_new = nat (N self)" "length v_new = nat (N self)"
    using inv by (auto simp: euler_inv_def st)
  have v0: "k = 0 \<Longrightarrow> v_new ! 0 = v_mid self p0 ! 0"
    using inv k by (auto simp: euler_inv_def st)
  note eq = euler_body_eq [OF wf k len v0]
  have l: "length (v self) = nat (N self)" "length (s self) = nat (N self)" "0 < N self"
    using wf k by (auto simp: wf_state_def)
  have cur: "s_new ! k = s self ! k" "v_new ! k = v_mid self p0 ! k"
    using inv k by (auto simp: euler_inv_def st)
  show ?thesis
  proof (cases "pinned self p0 k")
    case True
    then have k0: "k = 0" by (simp add: pinned_def)
    have "pos_at self p0 k = s_new ! k" "vel_at self p0 k = v_new ! k"
      using True cur k0 l by (simp_all add: pos_at_def vel_at_def v_mid_def)
    then have "euler_inv self p0 (Suc k) (s_new, v_new)"
      using inv by (auto simp: euler_inv_def st less_Suc_eq)
    then show ?thesis using eq True st by simp
  next
    case False
    have "euler_inv self p0 (Suc k) (s_new[k := pos_at self p0 k], v_new[k := vel_at self p0 k])"
      using inv k by (auto simp: euler_inv_def st less_Suc_eq)
    then show ?thesis using eq False st by simp
  qed
qed

lemma euler_loop:
  assumes wf: "wf_state self"
  shows "for_each (euler_body self p0 (map (acc_at self p0) [0..<nat (N self)]))
           (py_range (N self)) (s self, v_mid self p0)
         = Inr (map (pos_at self p0) [0..<nat (N self)], map (vel_at self p0) [0..<nat (N self)])"
proof -
  let ?body = "euler_body self p0 (map (acc_at self p0) [0..<nat (N self)])"
  have N: "N self = int (nat (N self))" using wf by (simp add: wf_state_def)
  have "\<exists>st'. for_each ?body (py_range (int (nat (N self)))) (s self, v_mid self p0) = Inr st'
          \<and> euler_inv self p0 (nat (N self)) st'"
  proof (rule for_each_range_inv)
    show "euler_inv self p0 0 (s self, v_mid self p0)"
      using wf by (simp add: euler_inv_def wf_state_def v_mid_def)
  next
    fix k st
    assume "k < nat (N self)" "euler_inv self p0 k st"
    then show "\<exists>st'. ?body (int k) st = Inr st' \<and> euler_inv self p0 (Suc k) st'"
      by (rule euler_body_step [OF wf])
  qed
  then obtain st' where r: "for_each ?body (py_range (N self)) (s self, v_mid self p0) = Inr st'"
      and i: "euler_inv self p0 (nat (N self)) st'"
    using N by auto
  have "fst st' = map (pos_at self p0) [0..<nat (N self)]"
    using i by (intro nth_equalityI) (simp_all add: euler_inv_def)
  moreover have "snd st' = map (vel_at self p0) [0..<nat (N self)]"
    using i by (intro nth_equalityI) (simp_all add: euler_inv_def)
  ultimately show ?thesis using r by (simp add: prod_eq_iff)
qed

lemma run_step_closed_form:
  assumes wf: "wf_state self"
    and sq: "0 \<le> A_MAX self * B_DECEL self \<or> N self \<le> 1"
    and p0: "leader_stopped self t = Inr p0"
  shows "run_step self t =
           Inr (self\<lparr>s := map (pos_at self p0) [0..<nat (N self)],
                     v := map (vel_at self p0) [0..<nat (N self)]\<rparr>)"
proof -
  have "\<not> N self < 0" using wf by (simp add: wf_state_def)
  then show ?thesis
    unfolding run_step_def
    by (simp add: p0 accel_loop [OF wf sq] euler_loop [OF wf, unfolded v_mid_def])
qed

section \<open>Steps of valid objects\<close>

lemma leader_stopped_total:
  "REPEAT_INTERVAL self \<noteq> 0 \<Longrightarrow> \<exists>b. leader_stopped self t = Inr b"
  by (auto simp: leader_stopped_def float_mod_def Let_def)

lemma run_step_valid:
  assumes "valid_params self" "wf_state self"
  shows "\<exists>p0. leader_stopped self t = Inr p0 \<and>
           run_step self t =
             Inr (self\<lparr>s := map (pos_at self p0) [0..<nat (N self)],
                       v := map (vel_at self p0) [0..<nat (N self)]\<rparr>)"
proof -
  have "REPEAT_INTERVAL self \<noteq> 0" "0 \<le> A_MAX self * B_DECEL self \<or> N self \<le> 1"
    using assms(1) by (auto simp: valid_params_def)
  then show ?thesis
    using leader_stopped_total [of self t] run_step_closed_form [OF assms(2)] by blast
qed

lemma vel_at_nonneg: "0 \<le> vel_at self p0 k"
  by (simp add: vel_at_def Let_def)

lemma wf_state_step:
  "wf_state self \<Longrightarrow> wf_state (self\<lparr>s := map f [0..<nat (N self)], v := map g [0..<nat (N self)]\<rparr>)"
  by (simp add: wf_state_def)

lemma valid_params_step: "valid_params (self\<lparr>s := xs, v := ys\<rparr>) = valid_params self"
  by (simp add: valid_params_def)

lemma run_steps_snoc:
  "run_steps self (ts @ [t]) = bind_err (run_steps self ts) (\<lambda>x. run_step x t)"
  by (induction ts arbitrary: self) (auto split: sum.splits)

lemma run_steps_valid:
  assumes "valid_params self" "wf_state self"
  shows "\<exists>self'. run_steps self ts = Inr self' \<and> valid_params self' \<and> wf_state self'
           \<and> params.truncate self' = params.truncate self"
  using assms
proof (induction ts arbitrary: self)
  case Nil
  then show ?case by simp
next
  case (Cons t ts)
  from run_step_valid [OF Cons.prems, of t] obtain p0 where
    r: "run_step self t = Inr (self\<lparr>s := map (pos_at self p0) [0..<nat (N self)],
                       v := map (vel_at self p0) [0..<nat (N self)]\<rparr>)" by blast
  let ?m = "self\<lparr>s := map (pos_at self p0) [0..<nat (N self)],
                       v := map (vel_at self p0) [0..<nat (N self)]\<rparr>"
  have "valid_params ?m" "wf_state ?m"
    using Cons.prems by (simp_all add: valid_params_step wf_state_step)
  from Cons.IH [OF this] show ?case using r by (simp add: params.truncate_def)
qed

text \<open>The anti-collision rule in exact arithmetic (see the note on doubles at the
  head of the theory).\<close>

lemma vel_at_follower_bound:
  assumes "0 < DT self" "k \<noteq> 0"
  shows "(0.5 \<le> gap_at self k \<longrightarrow> vel_at self p0 k * DT self \<le> gap_at self k - 0.5) \<and>
         (gap_at self k < 0.5 \<longrightarrow> vel_at self p0 k = 0)"
proof -
  let ?g = "gap_at self k"
  let ?v1 = "max 0 (v self ! k + acc_at self p0 k * DT self)"
  have np: "\<not> pinned self p0 k" using assms by (simp add: pinned_def)
  have v1: "0 \<le> ?v1 * DT self" using assms by simp
  show ?thesis
  proof (intro conjI impI)
    assume g: "0.5 \<le> ?g"
    then have "max 0 ((?g - 0.5) / DT self) * DT self = ?g - 0.5"
      using assms by (simp add: max_def)
    then show "vel_at self p0 k * DT self \<le> ?g - 0.5"
      using np assms by (auto simp: vel_at_def Let_def)
  next
    assume g: "?g < 0.5"
    then have "(?g - 0.5) / DT self < 0" using assms by (simp add: field_simps)
    then have "max 0 ((?g - 0.5) / DT self) = 0" by simp
    moreover have "?v1 * DT self > ?g - 0.5" using v1 g by linarith
    ultimately show "vel_at self p0 k = 0"
      using np assms by (simp add: vel_at_def Let_def)
  qed
qed

lemma vel_at_follower_upper:
  assumes dt: "0 < DT self" and a: "0 \<le> A_MAX self" and k: "k \<noteq> 0" and vk: "0 \<le> v self ! k"
  shows "vel_at self p0 k \<le> v self ! k + A_MAX self * DT self"
proof -
  define P where "P = (v self ! k / V0 self) ^ 4"
  define q where "q = ((S0 self + max 0 (v self ! k * T_HEADWAY self
                   + (v self ! k * (v self ! k - v self ! leader_idx_of (N self) k))
                     / (2 * sqrt (A_MAX self * B_DECEL self))))
                / max 0.01 (gap_at self k)) ^ 2"
  define v1 where "v1 = max 0 (v self ! k + acc_at self p0 k * DT self)"
  have acc: "acc_at self p0 k = A_MAX self * (1 - P - q)"
    using k by (simp add: acc_at_def P_def q_def)
  have "0 \<le> P" unfolding P_def by (rule zero_le_even_power) simp
  moreover have "0 \<le> q" unfolding q_def by simp
  ultimately have "1 - P - q \<le> 1" by simp
  then have "A_MAX self * (1 - P - q) \<le> A_MAX self * 1" using a by (rule mult_left_mono)
  then have "A_MAX self * (1 - P - q) \<le> A_MAX self" by simp
  then have "A_MAX self * (1 - P - q) * DT self \<le> A_MAX self * DT self"
    using dt by (intro mult_right_mono) simp_all
  then have "acc_at self p0 k * DT self \<le> A_MAX self * DT self"
    unfolding acc .
  moreover have "0 \<le> A_MAX self * DT self" using a dt by simp
  ultimately have v1: "v1 \<le> v self ! k + A_MAX self * DT self" "0 \<le> v1"
    using vk by (simp_all add: v1_def)
  have np: "\<not> pinned self p0 k" using k by (simp add: pinned_def)
  show ?thesis
  proof (cases "v1 * DT self > gap_at self k - 0.5")
    case True
    then have "(gap_at self k - 0.5) / DT self < v1" using dt by (simp add: field_simps)
    then have "max 0 ((gap_at self k - 0.5) / DT self) \<le> v1" using v1(2) by simp
    moreover have "vel_at self p0 k = max 0 ((gap_at self k - 0.5) / DT self)"
      using np k True by (simp add: vel_at_def v1_def Let_def)
    ultimately show ?thesis using v1(1) by simp
  next
    case False
    then have "vel_at self p0 k = v1" using np k by (simp add: vel_at_def v1_def Let_def)
    then show ?thesis using v1(1) by simp
  qed
qed

lemma idm_accel_valid:
  assumes "valid_params self" "wf_state self" "0 < i" "int i < N self"
  shows "idm_accel self (v self ! i) (v self ! (i - 1)) (gap_at self i) = Inr (acc_at self p0 i)"
proof -
  have "0 \<le> A_MAX self * B_DECEL self" using assms(1) by (simp add: valid_params_def)
  moreover have "leader_idx_of (N self) i = i - 1"
    using assms by (simp add: leader_idx_of_pred)
  ultimately show ?thesis using assms(3) by (simp add: idm_accel_ok acc_at_def)
qed

lemma leader_stopped_state: "leader_stopped (self\<lparr>s := xs, v := vs\<rparr>) t = leader_stopped self t"
  by (simp add: leader_stopped_def)

lemma vel_at_leader:
  "vel_at self p0 0 =
     (if p0 then (if v self ! 0 > 0 then max 0 (v self ! 0 + (- 10) * DT self) else 0)
      else max 0 (v self ! 0 + A_MAX self * (1 - (v self ! 0 / V0 self) ^ 4) * DT self))"
  by (simp add: vel_at_def pinned_def acc_at_def)

lemma pos_at_leader:
  "pos_at self p0 0 =
     (if p0 \<and> \<not> v self ! 0 > 0 then s self ! 0
      else np_mod (s self ! 0 + vel_at self p0 0 * DT self) (CIRC self))"
  by (simp add: pos_at_def pinned_def)

section \<open>Positions on the ring\<close>

lemma np_mod_range: "0 < c \<Longrightarrow> 0 \<le> np_mod x c \<and> np_mod x c < c"
proof -
  assume c: "0 < c"
  have "of_int \<lfloor>x / c\<rfloor> \<le> x / c" "x / c < of_int \<lfloor>x / c\<rfloor> + 1"
    by linarith+
  then have "of_int \<lfloor>x / c\<rfloor> * c \<le> x" "x < (of_int \<lfloor>x / c\<rfloor> + 1) * c"
    using c by (simp_all only: pos_le_divide_eq pos_divide_less_eq)
  then show ?thesis by (simp add: np_mod_def algebra_simps)
qed

lemma np_mod_id: "0 \<le> x \<Longrightarrow> x < c \<Longrightarrow> np_mod x c = x"
proof -
  assume a: "0 \<le> x" "x < c"
  then have "\<lfloor>x / c\<rfloor> = 0" by (simp add: floor_eq_iff)
  then show ?thesis by (simp add: np_mod_def)
qed

lemma np_mod_shift: "c \<noteq> 0 \<Longrightarrow> np_mod (x + of_int k * c) c = np_mod x c"
proof -
  assume c: "c \<noteq> 0"
  have "(x + of_int k * c) / c = x / c + of_int k" using c by (simp add: field_simps)
  then have "\<lfloor>(x + of_int k * c) / c\<rfloor> = \<lfloor>x / c\<rfloor> + k" by simp
  then show ?thesis by (simp add: np_mod_def algebra_simps)
qed

lemma ring_dist:
  assumes "0 \<le> x" "x < c" "0 \<le> y" "y < c"
  shows "(if x - y < 0 then x - y + c else x - y) = np_mod (x - y) c"
proof (cases "x - y < 0")
  case True
  have c: "c \<noteq> 0" using assms by auto
  have "np_mod (x - y) c = np_mod ((x - y + c) + of_int (- 1) * c) c" by simp
  also have "\<dots> = np_mod (x - y + c) c" using c by (rule np_mod_shift)
  also have "\<dots> = x - y + c" using True assms by (intro np_mod_id) auto
  finally show ?thesis using True by simp
next
  case False
  then have "np_mod (x - y) c = x - y" using assms by (intro np_mod_id) auto
  then show ?thesis using False by simp
qed

lemma np_mod_diff:
  assumes "c \<noteq> 0"
  shows "np_mod (np_mod a c - np_mod b c) c = np_mod (a - b) c"
proof -
  have "np_mod a c - np_mod b c = (a - b) + of_int (\<lfloor>b / c\<rfloor> - \<lfloor>a / c\<rfloor>) * c"
    by (simp add: np_mod_def algebra_simps)
  then show ?thesis by (simp only: np_mod_shift [OF assms])
qed

lemma np_mod_eq_shift:
  "c \<noteq> 0 \<Longrightarrow> \<exists>k::int. np_mod x c = x + of_int k * c"
  by (rule exI [of _ "- \<lfloor>x / c\<rfloor>"]) (simp add: np_mod_def algebra_simps)

lemma pos_at_in_ring:
  assumes "0 < CIRC self" "in_ring self" "k < nat (N self)"
  shows "0 \<le> pos_at self p0 k \<and> pos_at self p0 k < CIRC self"
  using assms np_mod_range [OF assms(1)] by (simp add: pos_at_def in_ring_def)

lemma init_valid:
  assumes "valid_params p"
  shows "\<exists>self0. init p = Inr self0 \<and> valid_params self0 \<and> wf_state self0 \<and> in_ring self0
           \<and> params.truncate self0 = p"
proof -
  have n: "0 < N p" "0 < CIRC p" using assms by (auto simp: valid_params_def)
  have "\<And>i. i < nat (N p) \<Longrightarrow> real i * (CIRC p / of_int (N p)) < CIRC p"
  proof -
    fix i assume "i < nat (N p)"
    then have "real i < of_int (N p)" using n by linarith
    then have "real i * CIRC p < of_int (N p) * CIRC p" using n by simp
    then show "real i * (CIRC p / of_int (N p)) < CIRC p" using n by (simp add: field_simps)
  qed
  moreover have "\<And>i. 0 \<le> real i * (CIRC p / of_int (N p))" using n by simp
  ultimately show ?thesis
    using assms n
    by (simp add: init_def np_linspace0_def np_ones_times_def valid_params_def wf_state_def
        in_ring_def params.truncate_def)
qed

lemma run_steps_in_ring:
  assumes "valid_params self" "wf_state self" "in_ring self"
  shows "\<exists>self'. run_steps self ts = Inr self' \<and> in_ring self'
           \<and> params.truncate self' = params.truncate self"
  using assms
proof (induction ts arbitrary: self)
  case Nil
  then show ?case by simp
next
  case (Cons t ts)
  from run_step_valid [OF Cons.prems(1,2), of t] obtain p0 where
    r: "run_step self t = Inr (self\<lparr>s := map (pos_at self p0) [0..<nat (N self)],
                       v := map (vel_at self p0) [0..<nat (N self)]\<rparr>)" by blast
  let ?m = "self\<lparr>s := map (pos_at self p0) [0..<nat (N self)],
                       v := map (vel_at self p0) [0..<nat (N self)]\<rparr>"
  have c: "0 < CIRC self" using Cons.prems(1) by (simp add: valid_params_def)
  have "valid_params ?m" "wf_state ?m"
    using Cons.prems by (simp_all add: valid_params_step wf_state_step)
  moreover have "in_ring ?m"
    using pos_at_in_ring [OF c Cons.prems(3)] by (simp add: in_ring_def)
  ultimately show ?case using Cons.IH [of ?m] r by (simp add: params.truncate_def)
qed

lemma pos_at_mod:
  assumes "0 < CIRC self" "in_ring self" "k < nat (N self)"
  shows "pos_at self p0 k = np_mod (s self ! k + vel_at self p0 k * DT self) (CIRC self)"
proof (cases "pinned self p0 k")
  case True
  then have "vel_at self p0 k = 0" by (simp add: vel_at_def)
  moreover have "np_mod (s self ! k) (CIRC self) = s self ! k"
    using assms by (intro np_mod_id) (auto simp: in_ring_def)
  ultimately show ?thesis using True by (simp add: pos_at_def)
next
  case False
  then show ?thesis by (simp add: pos_at_def)
qed

lemma gap_at_step:
  assumes c: "0 < CIRC self" and wf: "wf_state self" and ring: "in_ring self"
    and i: "0 < i" "i < nat (N self)"
    and lo: "0 \<le> gap_at self i + L_VEHICLE self
                  + vel_at self p0 (i - 1) * DT self - vel_at self p0 i * DT self"
    and hi: "gap_at self i + L_VEHICLE self
                  + vel_at self p0 (i - 1) * DT self - vel_at self p0 i * DT self < CIRC self"
  shows "gap_at (self\<lparr>s := map (pos_at self p0) [0..<nat (N self)],
                      v := map (vel_at self p0) [0..<nat (N self)]\<rparr>) i
         = gap_at self i + vel_at self p0 (i - 1) * DT self - vel_at self p0 i * DT self"
proof -
  define l where "l = i - 1"
  define C where "C = CIRC self"
  define dl where "dl = vel_at self p0 l * DT self"
  define di where "di = vel_at self p0 i * DT self"
  define xl where "xl = s self ! l"
  define xi where "xi = s self ! i"
  define D where "D = gap_at self i + L_VEHICLE self"
  have l: "l < nat (N self)" "leader_idx_of (N self) i = l"
    using i by (simp_all add: leader_idx_of_pred l_def)
  have cz: "C \<noteq> 0" "0 < C" using c by (simp_all add: C_def)
  have rl: "0 \<le> xl" "xl < C" "0 \<le> xi" "xi < C"
    using ring i l by (auto simp: in_ring_def xl_def xi_def C_def)
  have pl: "pos_at self p0 l = np_mod (xl + dl) C"
    unfolding xl_def dl_def C_def by (rule pos_at_mod [OF c ring l(1)])
  have pi: "pos_at self p0 i = np_mod (xi + di) C"
    unfolding xi_def di_def C_def by (rule pos_at_mod [OF c ring i(2)])
  have "D = (if xl - xi < 0 then xl - xi + C else xl - xi)"
    unfolding D_def gap_at_def Let_def l(2) xl_def xi_def C_def by simp
  then have D: "D = np_mod (xl - xi) C"
    using ring_dist [OF rl] by simp
  obtain k :: int where k: "D = (xl - xi) + of_int k * C"
    using np_mod_eq_shift [OF cz(1), of "xl - xi"] D by auto
  have lohi: "0 \<le> D + dl - di" "D + dl - di < C"
    using lo hi by (simp_all add: D_def dl_def di_def l_def C_def)
  have inr: "0 \<le> np_mod (xl + dl) C" "np_mod (xl + dl) C < C"
    "0 \<le> np_mod (xi + di) C" "np_mod (xi + di) C < C"
    using np_mod_range [OF cz(2)] by simp_all
  have "(if np_mod (xl + dl) C - np_mod (xi + di) C < 0
         then np_mod (xl + dl) C - np_mod (xi + di) C + C
         else np_mod (xl + dl) C - np_mod (xi + di) C)
        = np_mod (np_mod (xl + dl) C - np_mod (xi + di) C) C"
    by (rule ring_dist [OF inr])
  also have "\<dots> = np_mod ((xl + dl) - (xi + di)) C"
    by (rule np_mod_diff [OF cz(1)])
  also have "(xl + dl) - (xi + di) = (D + dl - di) + of_int (- k) * C"
    using k by (simp add: algebra_simps)
  also have "np_mod \<dots> C = np_mod (D + dl - di) C"
    by (rule np_mod_shift [OF cz(1)])
  also have "\<dots> = D + dl - di"
    using lohi by (rule np_mod_id)
  finally have "(if pos_at self p0 l - pos_at self p0 i < 0
         then pos_at self p0 l - pos_at self p0 i + C
         else pos_at self p0 l - pos_at self p0 i) - L_VEHICLE self
       = gap_at self i + dl - di"
    unfolding pl pi by (simp add: D_def)
  moreover have "gap_at (self\<lparr>s := map (pos_at self p0) [0..<nat (N self)],
                      v := map (vel_at self p0) [0..<nat (N self)]\<rparr>) i
        = (if pos_at self p0 l - pos_at self p0 i < 0
         then pos_at self p0 l - pos_at self p0 i + C
         else pos_at self p0 l - pos_at self p0 i) - L_VEHICLE self"
    using i l by (simp add: gap_at_def Let_def C_def)
  ultimately show ?thesis by (simp add: dl_def di_def l_def)
qed

lemma ring_gap:
  assumes c: "0 < c" and xl: "xl = np_mod a c" and xi: "xi = np_mod b c"
    and lo: "0 \<le> a - b + of_int m * c" and hi: "a - b + of_int m * c < c"
  shows "(if xl - xi < 0 then xl - xi + c else xl - xi) = a - b + of_int m * c"
proof -
  have cz: "c \<noteq> 0" using c by simp
  have r: "0 \<le> xl" "xl < c" "0 \<le> xi" "xi < c"
    using np_mod_range [OF c] by (simp_all add: xl xi)
  have "(if xl - xi < 0 then xl - xi + c else xl - xi) = np_mod (xl - xi) c"
    by (rule ring_dist [OF r])
  also have "\<dots> = np_mod (a - b) c" unfolding xl xi by (rule np_mod_diff [OF cz])
  also have "\<dots> = np_mod (a - b + of_int m * c) c" by (rule np_mod_shift [OF cz, symmetric])
  also have "\<dots> = a - b + of_int m * c" using lo hi by (rule np_mod_id)
  finally show ?thesis .
qed

lemma np_mod_add: "c \<noteq> 0 \<Longrightarrow> np_mod (np_mod a c + b) c = np_mod (a + b) c"
proof -
  assume c: "c \<noteq> 0"
  have "np_mod a c + b = (a + b) + of_int (- \<lfloor>a / c\<rfloor>) * c"
    by (simp add: np_mod_def algebra_simps)
  then show ?thesis by (simp only: np_mod_shift [OF c])
qed

section \<open>Followers that are not lapped\<close>

lemma follower_gap_step:
  assumes val: "valid_params self" and wf: "wf_state self" and ring: "in_ring self"
    and i: "0 < i" "i < nat (N self)"
    and g: "0 \<le> gap_at self i"
    and lap: "gap_at self i + L_VEHICLE self + vel_at self p0 (i - 1) * DT self < CIRC self"
  shows "0 \<le> gap_at (self\<lparr>s := map (pos_at self p0) [0..<nat (N self)],
                           v := map (vel_at self p0) [0..<nat (N self)]\<rparr>) i"
proof -
  let ?g = "gap_at self i"
  let ?dl = "vel_at self p0 (i - 1) * DT self"
  let ?di = "vel_at self p0 i * DT self"
  have par: "0 < CIRC self" "0 < DT self" "0 \<le> L_VEHICLE self"
    using val by (auto simp: valid_params_def)
  have i0: "i \<noteq> 0" using i by simp
  have dl: "0 \<le> ?dl" using par vel_at_nonneg [of self p0 "i - 1"] by simp
  have di0: "0 \<le> ?di" using par vel_at_nonneg [of self p0 i] by simp
  have di: "?di \<le> ?g - min ?g 0.5"
    using vel_at_follower_bound [OF par(2) i0, of p0] by (cases "0.5 \<le> ?g") auto
  have lo: "0 \<le> ?g + L_VEHICLE self + ?dl - ?di"
    using g dl di par by (simp add: min_def split: if_splits)
  have hi: "?g + L_VEHICLE self + ?dl - ?di < CIRC self" using lap di0 by simp
  have "gap_at (self\<lparr>s := map (pos_at self p0) [0..<nat (N self)],
                     v := map (vel_at self p0) [0..<nat (N self)]\<rparr>) i = ?g + ?dl - ?di"
    using gap_at_step [OF par(1) wf ring i lo hi] .
  then show ?thesis using dl di g by (simp add: min_def split: if_splits)
qed

lemma follower_gap_run:
  assumes "valid_params self" "wf_state self" "in_ring self"
    and "0 < i" "i < nat (N self)" "0 \<le> gap_at self i"
    and "no_lapping self ts i"
  shows "\<exists>self'. run_steps self ts = Inr self' \<and> wf_state self' \<and> N self' = N self \<and>
           0 \<le> gap_at self' i"
  using assms
proof (induction ts arbitrary: self)
  case Nil
  then show ?case by simp
next
  case (Cons t ts)
  let ?n = "nat (N self)"
  obtain p0 where r: "run_step self t =
        Inr (self\<lparr>s := map (pos_at self p0) [0..<?n], v := map (vel_at self p0) [0..<?n]\<rparr>)"
    using run_step_valid [OF Cons.prems(1,2)] by blast
  let ?m = "self\<lparr>s := map (pos_at self p0) [0..<?n], v := map (vel_at self p0) [0..<?n]\<rparr>"
  have gg: "get_gap self (int i) (s self) = Inr (gap_at self i)"
    by (rule get_gap_nat [OF Cons.prems(2,5)])
  have l: "i - 1 < ?n" using Cons.prems(5) by simp
  have nl: "gap_at self i + L_VEHICLE self + vel_at self p0 (i - 1) * DT self < CIRC self"
      "no_lapping ?m ts i"
    using Cons.prems(7) l by (simp_all add: gg r)
  have c: "0 < CIRC self" using Cons.prems(1) by (simp add: valid_params_def)
  have m: "valid_params ?m" "wf_state ?m"
    using Cons.prems(1,2) by (simp_all add: valid_params_step wf_state_step)
  have ring: "in_ring ?m"
    using pos_at_in_ring [OF c Cons.prems(3)] by (simp add: in_ring_def)
  have g: "0 \<le> gap_at ?m i"
    by (rule follower_gap_step [OF Cons.prems(1,2,3,4,5,6) nl(1)])
  have im: "i < nat (N ?m)" using Cons.prems(5) by simp
  from Cons.IH [OF m ring Cons.prems(4) im g nl(2)]
  show ?case using r by simp
qed

lemma init_follower_gap:
  assumes "valid_params p" "init p = Inr self0" "0 < i" "int i < N p"
  shows "gap_at self0 i = CIRC p - CIRC p / of_int (N p) - L_VEHICLE p"
proof -
  define c where "c = CIRC p / of_int (N p)"
  define l where "l = i - 1"
  have n: "0 < N p" "0 < CIRC p" using assms(1) by (auto simp: valid_params_def)
  have lid: "leader_idx_of (N self0) i = l"
    using assms by (auto simp: leader_idx_of_pred l_def init_def np_linspace0_def
        np_ones_times_def)
  have sel: "s self0 = map (\<lambda>k. real k * c) [0..<nat (N p)]"
    "CIRC self0 = CIRC p" "L_VEHICLE self0 = L_VEHICLE p"
    using assms(2) n by (auto simp: init_def np_linspace0_def np_ones_times_def c_def)
  have i: "i < nat (N p)" "l < nat (N p)" "real l = real i - 1"
    using assms(3,4) by (auto simp: l_def of_nat_diff)
  have xl: "s self0 ! l = real l * c" using i by (simp add: sel)
  have xi: "s self0 ! i = real i * c" using i by (simp add: sel)
  have d: "s self0 ! l - s self0 ! i = - c"
    unfolding xl xi i(3) by (simp add: algebra_simps)
  have neg: "- c < 0" using n by (simp add: c_def)
  have "gap_at self0 i = (if s self0 ! l - s self0 ! i < 0
                          then s self0 ! l - s self0 ! i + CIRC p
                          else s self0 ! l - s self0 ! i) - L_VEHICLE p"
    unfolding gap_at_def Let_def lid sel(2,3) ..
  also have "\<dots> = - c + CIRC p - L_VEHICLE p" unfolding d using neg by simp
  finally show ?thesis by (simp add: c_def)
qed

section \<open>The first 75 calls of the run of \<open>simulacionPoo.py\<close>\<close>

text \<open>The followers start 219.5 m behind their leaders and keep a speed between 9.775
  and 10 during these calls, while the leader brakes to a halt after two seconds:
  vehicle 21, which starts 10.5 m behind the leader, drives through it.\<close>

lemma lead_v_range: "0 \<le> lead_v k \<and> lead_v k \<le> 10"
  by (induction k) auto

lemma lead_v_early: "k \<le> 40 \<Longrightarrow> lead_v k = 10"
  by (induction k) auto

lemma lead_x_range: "0 \<le> lead_x k \<and> lead_x k \<le> 0.5 * real k"
proof (induction k)
  case 0
  show ?case by simp
next
  case (Suc k)
  have "0 \<le> lead_v (Suc k)" "lead_v (Suc k) \<le> 10"
    using lead_v_range [of "Suc k"] by auto
  then have "0 \<le> lead_v (Suc k) * 0.05" "lead_v (Suc k) * 0.05 \<le> 0.5" by simp_all
  then show ?case using Suc by (simp del: lead_v.simps add: algebra_simps)
qed

lemma lead_x_75: "lead_x 75 = 24.75"
  by code_simp

lemma poo_select [simp]:
  "N (poo xs vs) = 22" "CIRC (poo xs vs) = 230" "DT (poo xs vs) = 1 / 20"
  "L_VEHICLE (poo xs vs) = 4" "S0 (poo xs vs) = 2" "V0 (poo xs vs) = 10"
  "A_MAX (poo xs vs) = 1" "B_DECEL (poo xs vs) = 4" "T_HEADWAY (poo xs vs) = 8 / 5"
  "STOP_DURATION (poo xs vs) = 2" "FIRST_STOP (poo xs vs) = 2"
  "REPEAT_INTERVAL (poo xs vs) = 10" "s (poo xs vs) = xs" "v (poo xs vs) = vs"
  by (simp_all add: poo_def)

lemma poo_update: "poo xs vs\<lparr>s := xs', v := vs'\<rparr> = poo xs' vs'"
  by (simp add: poo_def)

lemma poo_valid: "valid_params (poo xs vs)"
  by (simp add: valid_params_def)

lemma poo_wf: "length xs = 22 \<Longrightarrow> length vs = 22 \<Longrightarrow> wf_state (poo xs vs)"
  by (simp add: wf_state_def)

lemma fourth_power_bound:
  fixes x :: real
  assumes "0 \<le> x" "x \<le> 1"
  shows "0 \<le> 1 - x ^ 4" "1 - x ^ 4 \<le> 4 * (1 - x)"
proof -
  show "0 \<le> 1 - x ^ 4" using assms by (simp add: power_le_one)
  have "1 + real 4 * (x - 1) \<le> (1 + (x - 1)) ^ 4"
    using assms by (intro Bernoulli_inequality) simp
  then show "1 - x ^ 4 \<le> 4 * (1 - x)" by simp
qed

lemma follower_keeps_speed:
  assumes i: "0 < i" "i < 22"
    and vi: "9 \<le> vs ! i" "vs ! i \<le> 10"
    and vl: "0 \<le> vs ! (i - 1)" "vs ! (i - 1) \<le> 10"
    and g: "178 \<le> gap_at (poo xs vs) i"
  shows "vs ! i - 3 / 1000 \<le> vel_at (poo xs vs) p0 i \<and> vel_at (poo xs vs) p0 i \<le> 10"
proof -
  define w where "w = vs ! i"
  define u where "u = vs ! (i - 1)"
  define gp where "gp = gap_at (poo xs vs) i"
  define ss where "ss = 2 + max 0 (w * (8 / 5) + w * (w - u) / (2 * sqrt (1 * 4)))"
  define q where "q = (ss / max (1 / 100) gp) ^ 2"
  have l: "leader_idx_of 22 i = i - 1" using i by (simp add: leader_idx_of_pred)
  have acc: "acc_at (poo xs vs) p0 i = 1 * (1 - (w / 10) ^ 4 - q)"
    using i by (simp add: acc_at_def l w_def u_def gp_def ss_def q_def)
  have sq: "sqrt (1 * 4) = (2::real)" by simp
  have "w * (w - u) \<le> w * w"
    using vi vl by (intro mult_left_mono) (simp_all add: w_def u_def)
  also have "\<dots> \<le> 10 * 10" using vi by (intro mult_mono) (simp_all add: w_def)
  finally have wu: "w * (w - u) \<le> 100" by simp
  have "w * (8 / 5) \<le> 16" using vi by (simp add: w_def)
  then have ss: "0 \<le> ss" "ss \<le> 43" using wu unfolding ss_def sq by simp_all
  have eg: "178 \<le> max (1 / 100) gp" using g by (simp add: gp_def)
  have r0: "0 \<le> ss / max (1 / 100) gp" using ss eg by simp
  have "ss / max (1 / 100) gp \<le> 43 / 178"
    using ss eg by (intro frac_le) simp_all
  then have "q \<le> (43 / 178) ^ 2" unfolding q_def using r0 by (intro power_mono)
  then have q: "0 \<le> q" "q \<le> 3 / 50" by (simp_all add: q_def power2_eq_square)
  have x: "0 \<le> w / 10" "w / 10 \<le> 1" using vi by (simp_all add: w_def)
  note p4 = fourth_power_bound [OF x]
  define P where "P = (w / 10) ^ 4"
  have P: "0 \<le> 1 - P" "1 - P \<le> 4 * (1 - w / 10)" using p4 by (simp_all add: P_def)
  define v1 where "v1 = max 0 (w + acc_at (poo xs vs) p0 i * (1 / 20))"
  have v1: "v1 = max 0 (w + (1 - P - q) * (1 / 20))"
    unfolding v1_def acc P_def by simp
  have m: "w + (1 - P - q) * (1 / 20) \<le> v1" unfolding v1 by (rule max.cobounded2)
  have "w - 3 / 1000 \<le> w + (1 - P - q) * (1 / 20)" using P(1) q by argo
  then have lo: "w - 3 / 1000 \<le> v1" using m by (rule order_trans)
  have "w \<le> 10" using vi by (simp add: w_def)
  then have "w + (1 - P - q) * (1 / 20) \<le> 10" using P(2) q by argo
  then have hi: "v1 \<le> 10" unfolding v1 by simp
  have v10: "0 \<le> v1" by (simp add: v1_def)
  have noclamp: "\<not> (i \<noteq> 0 \<and> v1 * (1 / 20) > gp - 1 / 2)"
    using hi g by (simp add: gp_def)
  have "vel_at (poo xs vs) p0 i = v1"
    using i noclamp by (simp add: vel_at_def pinned_def v1_def w_def gp_def Let_def)
  then show ?thesis using lo hi by (simp add: w_def)
qed

lemma poo_follower_gap:
  assumes k: "k \<le> 75" and i: "0 < i" "i < 22"
    and len: "length xs = 22"
    and X: "\<forall>j<22. 0 \<le> X j \<and> X j \<le> 1 / 2 * real k"
    and Xi: "61 / 125 * real k \<le> X i"
    and pos: "\<forall>j<22. xs ! j = np_mod (real j * (230 / 22) + X j) 230"
  shows "178 \<le> gap_at (poo xs vs) i"
proof -
  define l where "l = i - 1"
  define a where "a = real l * (230 / 22) + X l"
  define b where "b = real i * (230 / 22) + X i"
  have l: "leader_idx_of 22 i = l" "l < 22" "real l = real i - 1"
    using i by (simp_all add: leader_idx_of_pred l_def of_nat_diff)
  have xl: "xs ! l = np_mod a 230" using pos l by (simp add: a_def)
  have xi: "xs ! i = np_mod b 230" using pos i by (simp add: b_def)
  have k': "real k \<le> 75" using k by simp
  have Xl: "0 \<le> X l" "X l \<le> 1 / 2 * real k" using X l by auto
  have Xi': "X i \<le> 1 / 2 * real k" using X i by auto
  have ab: "a - b + 230 = 2415 / 11 + X l - X i"
    unfolding a_def b_def l(3) by argo
  have lo: "182 \<le> a - b + 230" unfolding ab using Xl Xi' k' by argo
  have hi: "a - b + 230 < 230" unfolding ab using Xl Xi k' by argo
  have eq: "(if xs ! l - xs ! i < 0 then xs ! l - xs ! i + 230 else xs ! l - xs ! i)
          = a - b + 230"
    using ring_gap [OF _ xl xi, of 1] lo hi by simp
  have g: "gap_at (poo xs vs) i
          = (if xs ! l - xs ! i < 0 then xs ! l - xs ! i + 230 else xs ! l - xs ! i) - 4"
    unfolding gap_at_def Let_def poo_select l(1) by simp
  show ?thesis unfolding g eq using lo by simp
qed

lemma poo_leader_gap:
  assumes len: "length xs = 22"
    and X0: "X 0 = 99 / 4"
    and X21: "61 / 125 * 75 \<le> X 21" "X 21 \<le> 1 / 2 * 75"
    and pos: "\<forall>j<22. xs ! j = np_mod (real j * (230 / 22) + X j) 230"
  shows "gap_at (poo xs vs) 0 < 0"
proof -
  define a where "a = real 21 * (230 / 22) + X 21"
  define b where "b = real 0 * (230 / 22) + X 0"
  have l: "leader_idx_of 22 0 = 21" by (simp add: leader_idx_of_def)
  have xl: "xs ! 21 = np_mod a 230" using pos by (simp add: a_def)
  have xi: "xs ! 0 = np_mod b 230" using pos by (simp add: b_def)
  have ab: "a - b - 230 = 2415 / 11 + X 21 - 99 / 4 - 230"
    by (simp add: a_def b_def X0)
  have lo: "0 \<le> a - b - 230" unfolding ab using X21 by argo
  have hi: "a - b - 230 < 3" unfolding ab using X21 by argo
  have eq: "(if xs ! 21 - xs ! 0 < 0 then xs ! 21 - xs ! 0 + 230 else xs ! 21 - xs ! 0)
          = a - b - 230"
    using ring_gap [OF _ xl xi, of "- 1"] lo hi by simp
  have g: "gap_at (poo xs vs) 0
          = (if xs ! 21 - xs ! 0 < 0 then xs ! 21 - xs ! 0 + 230 else xs ! 21 - xs ! 0) - 4"
    unfolding gap_at_def Let_def poo_select l by simp
  show ?thesis unfolding g eq using hi by simp
qed

lemma poo_leader_stopped:
  assumes "k < 75"
  shows "leader_stopped (poo xs vs) (real k * DT (poo xs vs)) = Inr (40 \<le> k)"
proof (cases "40 \<le> k")
  case True
  define e where "e = real k * (1 / 20) - 2"
  have e: "0 \<le> e" "e < 7 / 4" using True assms by (simp_all add: e_def)
  then have "\<lfloor>e / 10\<rfloor> = 0" by (simp add: floor_eq_iff)
  then have "float_mod e 10 = Inr e" by (simp add: float_mod_def)
  then show ?thesis using e True by (simp add: leader_stopped_def Let_def e_def)
next
  case False
  then have "real k * (1 / 20) - 2 < 0" by simp
  then show ?thesis using False by (simp add: leader_stopped_def Let_def)
qed

lemma poo_leader_velocity:
  assumes "vs ! 0 = lead_v k"
  shows "vel_at (poo xs vs) (40 \<le> k) 0 = lead_v (Suc k)"
proof (cases "40 \<le> k")
  case True
  have "0 \<le> lead_v k" using lead_v_range by simp
  then show ?thesis using True assms by (auto simp: vel_at_leader)
next
  case False
  then have "lead_v k = 10" by (simp add: lead_v_early)
  then show ?thesis using False assms by (simp add: vel_at_leader)
qed

lemma poo_step:
  assumes k: "k < 75" and inv: "poo_inv k self"
  shows "\<exists>self'. run_step self (real k * DT self) = Inr self' \<and> poo_inv (Suc k) self'"
proof -
  obtain xs vs X where self: "self = poo xs vs"
    and len: "length xs = 22" "length vs = 22"
    and v0: "vs ! 0 = lead_v k" and X0: "X 0 = lead_x k"
    and fol: "\<forall>i. 0 < i \<and> i < 22 \<longrightarrow>
           61 / 125 * real k \<le> X i \<and> X i \<le> 1 / 2 * real k \<and>
           10 - 3 / 1000 * real k \<le> vs ! i \<and> vs ! i \<le> 10"
    and pos: "\<forall>i<22. xs ! i = np_mod (real i * (230 / 22) + X i) 230"
    using inv unfolding poo_inv_def by blast
  define p0 where "p0 = (40 \<le> k)"
  define vel where "vel = vel_at (poo xs vs) p0"
  define X' where "X' = (\<lambda>i. X i + vel i * (1 / 20))"
  define xs' where "xs' = map (pos_at (poo xs vs) p0) [0..<22]"
  define vs' where "vs' = map vel [0..<22]"
  have k': "real k \<le> 74" using k by simp
  have wf: "wf_state (poo xs vs)" using len by (rule poo_wf)
  have ls: "leader_stopped (poo xs vs) (real k * DT (poo xs vs)) = Inr p0"
    unfolding p0_def by (rule poo_leader_stopped [OF k])
  have run: "run_step self (real k * DT self) = Inr (poo xs' vs')"
    using run_step_valid [OF poo_valid wf, of "real k * DT (poo xs vs)"] ls
    unfolding self xs'_def vs'_def vel_def by (auto simp: poo_update)
  have Xall: "\<forall>j<22. 0 \<le> X j \<and> X j \<le> 1 / 2 * real k"
  proof (intro allI impI)
    fix j :: nat assume j: "j < 22"
    show "0 \<le> X j \<and> X j \<le> 1 / 2 * real k"
    proof (cases "j = 0")
      case True
      then show ?thesis using lead_x_range [of k] X0 by simp
    next
      case False
      then have "61 / 125 * real k \<le> X j" "X j \<le> 1 / 2 * real k" using fol j by auto
      moreover have "0 \<le> 61 / 125 * real k" by simp
      ultimately show ?thesis by linarith
    qed
  qed
  have vall: "\<forall>j<22. 0 \<le> vs ! j \<and> vs ! j \<le> 10"
  proof (intro allI impI)
    fix j :: nat assume j: "j < 22"
    show "0 \<le> vs ! j \<and> vs ! j \<le> 10"
    proof (cases "j = 0")
      case True
      then show ?thesis using lead_v_range [of k] v0 by simp
    next
      case False
      then have "10 - 3 / 1000 * real k \<le> vs ! j" "vs ! j \<le> 10" using fol j by auto
      then show ?thesis using k' by argo
    qed
  qed
  have lead: "vel 0 = lead_v (Suc k)"
    unfolding vel_def p0_def by (rule poo_leader_velocity [OF v0])
  have folv: "vs ! i - 3 / 1000 \<le> vel i \<and> vel i \<le> 10" if i: "0 < i" "i < 22" for i
  proof -
    have f: "61 / 125 * real k \<le> X i" "10 - 3 / 1000 * real k \<le> vs ! i" "vs ! i \<le> 10"
      using fol i by auto
    have g: "178 \<le> gap_at (poo xs vs) i"
      by (rule poo_follower_gap [OF _ i len(1) Xall f(1) pos]) (use k in simp)
    have vi: "9 \<le> vs ! i" using f(2) k' by argo
    have vl: "0 \<le> vs ! (i - 1)" "vs ! (i - 1) \<le> 10" using vall i by auto
    show ?thesis unfolding vel_def by (rule follower_keeps_speed [OF i vi f(3) vl g])
  qed
  have ring: "in_ring (poo xs vs)"
    using pos np_mod_range [of 230] by (simp add: in_ring_def)
  have newpos: "xs' ! i = np_mod (real i * (230 / 22) + X' i) 230" if i: "i < 22" for i
  proof -
    have "pos_at (poo xs vs) p0 i = np_mod (xs ! i + vel i * (1 / 20)) 230"
      using pos_at_mod [OF _ ring, of i p0] i by (simp add: vel_def)
    also have "xs ! i = np_mod (real i * (230 / 22) + X i) 230" using pos i by simp
    also have "np_mod (np_mod (real i * (230 / 22) + X i) 230 + vel i * (1 / 20)) 230
               = np_mod (real i * (230 / 22) + X i + vel i * (1 / 20)) 230"
      by (rule np_mod_add) simp
    finally show ?thesis using i by (simp add: xs'_def X'_def add.assoc)
  qed
  have newfol: "61 / 125 * real (Suc k) \<le> X' i \<and> X' i \<le> 1 / 2 * real (Suc k) \<and>
           10 - 3 / 1000 * real (Suc k) \<le> vs' ! i \<and> vs' ! i \<le> 10"
    if i: "0 < i" "i < 22" for i
  proof -
    have f: "61 / 125 * real k \<le> X i" "X i \<le> 1 / 2 * real k"
      "10 - 3 / 1000 * real k \<le> vs ! i"
      using fol i by auto
    have b: "vs ! i - 3 / 1000 \<le> vel i" "vel i \<le> 10" using folv [OF i] by auto
    have sk: "real (Suc k) = real k + 1" by simp
    have "vs' ! i = vel i" using i by (simp add: vs'_def)
    then show ?thesis unfolding X'_def sk using f b k' by argo
  qed
  have "poo_inv (Suc k) (poo xs' vs')"
    unfolding poo_inv_def
  proof (intro exI conjI)
    show "poo xs' vs' = poo xs' vs'" ..
    show "length xs' = 22" by (simp add: xs'_def)
    show "length vs' = 22" by (simp add: vs'_def)
    show "vs' ! 0 = lead_v (Suc k)" using lead by (simp add: vs'_def del: lead_v.simps)
    show "X' 0 = lead_x (Suc k)" using lead X0 by (simp add: X'_def del: lead_v.simps)
    show "\<forall>i. 0 < i \<and> i < 22 \<longrightarrow>
           61 / 125 * real (Suc k) \<le> X' i \<and> X' i \<le> 1 / 2 * real (Suc k) \<and>
           10 - 3 / 1000 * real (Suc k) \<le> vs' ! i \<and> vs' ! i \<le> 10"
      using newfol by blast
    show "\<forall>i<22. xs' ! i = np_mod (real i * (230 / 22) + X' i) 230"
      using newpos by blast
  qed
  then show ?thesis using run by blast
qed

lemma run_times_Suc: "run_times p (Suc n) = run_times p n @ [real n * DT p]"
  by (simp add: run_times_def)

lemma poo_init:
  "init simulacionPoo_params = Inr (poo (map (\<lambda>k. real k * (230 / 22)) [0..<22]) (replicate 22 10))"
  by (simp add: init_def simulacionPoo_params_def poo_def np_linspace0_def np_ones_times_def)

lemma poo_inv_init: "poo_inv 0 (poo (map (\<lambda>k. real k * (230 / 22)) [0..<22]) (replicate 22 10))"
proof -
  have "real i * (230 / 22) = np_mod (real i * (230 / 22) + 0) 230" if "i < 22" for i
  proof -
    have "real i \<le> 21" using that by simp
    then have "0 \<le> real i * (230 / 22)" "real i * (230 / 22) < 230" by simp_all
    then show ?thesis by (simp add: np_mod_id)
  qed
  then show ?thesis
    unfolding poo_inv_def
    by (intro exI [of _ "map (\<lambda>k. real k * (230 / 22)) [0..<22]"] exI [of _ "replicate 22 10"]
        exI [of _ "\<lambda>i. 0"]) simp
qed

lemma poo_run:
  assumes "k \<le> 75"
  shows "\<exists>self'. run_steps (poo (map (\<lambda>k. real k * (230 / 22)) [0..<22]) (replicate 22 10))
                   (run_times simulacionPoo_params k) = Inr self' \<and> poo_inv k self'"
  using assms
proof (induction k)
  case 0
  show ?case using poo_inv_init by (simp add: run_times_def)
next
  case (Suc k)
  then obtain m where m: "run_steps (poo (map (\<lambda>k. real k * (230 / 22)) [0..<22]) (replicate 22 10))
                   (run_times simulacionPoo_params k) = Inr m" "poo_inv k m"
    by auto
  have dt: "DT simulacionPoo_params = DT m"
    using m(2) by (auto simp: poo_inv_def simulacionPoo_params_def)
  obtain self' where "run_step m (real k * DT m) = Inr self'" "poo_inv (Suc k) self'"
    using poo_step [OF _ m(2)] Suc.prems by auto
  then show ?case using m(1) dt by (simp add: run_times_Suc run_steps_snoc)
qed

lemma poo_gap_75:
  "\<exists>g. gap_after simulacionPoo_params (run_times simulacionPoo_params 75) 0 = Inr g \<and> g < 0"
proof -
  obtain self' where r: "run_steps (poo (map (\<lambda>k. real k * (230 / 22)) [0..<22]) (replicate 22 10))
                   (run_times simulacionPoo_params 75) = Inr self'" and i: "poo_inv 75 self'"
    using poo_run [of 75] by auto
  obtain xs vs X where self: "self' = poo xs vs"
    and len: "length xs = 22" "length vs = 22"
    and X0: "X 0 = lead_x 75"
    and fol: "\<forall>i. 0 < i \<and> i < 22 \<longrightarrow>
           61 / 125 * real 75 \<le> X i \<and> X i \<le> 1 / 2 * real 75 \<and>
           10 - 3 / 1000 * real 75 \<le> vs ! i \<and> vs ! i \<le> 10"
    and pos: "\<forall>i<22. xs ! i = np_mod (real i * (230 / 22) + X i) 230"
    using i unfolding poo_inv_def by blast
  have X0': "X 0 = 99 / 4" using X0 lead_x_75 by simp
  have X21: "61 / 125 * 75 \<le> X 21" "X 21 \<le> 1 / 2 * 75" using fol by auto
  have neg: "gap_at (poo xs vs) 0 < 0" by (rule poo_leader_gap [OF len(1) X0' X21 pos])
  have "get_gap (poo xs vs) (int 0) (s (poo xs vs)) = Inr (gap_at (poo xs vs) 0)"
    by (rule get_gap_nat [OF poo_wf [OF len]]) simp
  then have "gap_after simulacionPoo_params (run_times simulacionPoo_params 75) 0
               = Inr (gap_at (poo xs vs) 0)"
    using r self by (simp add: gap_after_def poo_init)
  then show ?thesis using neg by blast
qed

section \<open>The first 11 calls of the run of the ring of two vehicles\<close>

text \<open>The follower halts in the first call and the leader drives on at \<open>V0\<close>: in the
  11th call the leader, having gone half round the ring, passes the follower.\<close>

text \<open>Evaluating the model on a concrete object.\<close>

lemmas eval_defs = run_step_def leader_stopped_def float_mod_def py_range_def upt_rec
  accel_body_def euler_body_def get_gap_def idm_accel_def math_sqrt_def np_get_def np_set_def
  np_mod_def bind_err_def Let_def

lemma tight_init: "init tight_params = Inr tight_ring"
  by (simp add: init_def tight_params_def simulacionPoo_params_def tight_ring_def
      np_linspace0_def np_ones_times_def bind_err_def upt_rec numeral_2_eq_2)

lemma tight_first_step:
  "run_step tight_ring 0 = Inr (tight_ring\<lparr>s := [0.5, 5], v := [10, 0]\<rparr>)"
  by (simp add: tight_ring_def eval_defs)

lemma tight_step:
  assumes k: "1 \<le> k" "k \<le> 10" and inv: "tight_inv k self"
  shows "\<exists>self'. run_step self (real k * DT self) = Inr self' \<and> tight_inv (Suc k) self'"
proof -
  obtain x w where self: "self = tight_ring\<lparr>s := [real k / 2, x], v := [10, w]\<rparr>"
    and w: "0 \<le> w" "w \<le> (real k - 1) / 20" and x: "5 \<le> x" "x \<le> 5 + (real k - 1) / 40"
    using inv unfolding tight_inv_def by blast
  have k': "1 \<le> real k" "real k \<le> 10" using k by simp_all
  have sel: "N self = 2" "CIRC self = 10" "DT self = 1 / 20" "A_MAX self = 1" "V0 self = 10"
    "FIRST_STOP self = 2" "s self = [real k / 2, x]" "v self = [10, w]"
    by (simp_all add: self tight_ring_def)
  have val: "valid_params self" "wf_state self"
    by (simp_all add: self tight_ring_def valid_params_def wf_state_def)
  have "real k * (1 / 20) - 2 < 0" using k' by simp
  then have ls: "leader_stopped self (real k * DT self) = Inr False"
    by (simp add: leader_stopped_def sel Let_def)
  have two: "[0..<2] = [0, Suc 0]" by (simp add: upt_rec numeral_2_eq_2)
  define w' where "w' = vel_at self False 1"
  have run: "run_step self (real k * DT self)
             = Inr (self\<lparr>s := [pos_at self False 0, pos_at self False 1],
                       v := [vel_at self False 0, w']\<rparr>)"
    using run_step_valid [OF val, of "real k * DT self"] ls by (auto simp: sel two w'_def)
  have v0: "vel_at self False 0 = 10" by (simp add: vel_at_leader sel)
  have "np_mod (real k / 2 + 10 * (1 / 20)) 10 = real k / 2 + 10 * (1 / 20)"
    using k' by (intro np_mod_id) simp_all
  then have p0: "pos_at self False 0 = real (Suc k) / 2"
    by (simp add: pos_at_leader v0 sel add_divide_distrib)
  have w'hi: "w' \<le> w + 1 / 20"
    using vel_at_follower_upper [of self 1 False] w by (simp add: w'_def sel)
  have w'lo: "0 \<le> w'" unfolding w'_def by (rule vel_at_nonneg)
  have w'half: "w' \<le> 1 / 2" using w'hi w(2) k' by argo
  have "np_mod (x + w' * (1 / 20)) 10 = x + w' * (1 / 20)"
    using x k' w'lo w'half by (intro np_mod_id) argo+
  then have p1: "pos_at self False 1 = x + w' * (1 / 20)"
    by (simp add: pos_at_def pinned_def sel w'_def)
  have new: "self\<lparr>s := [pos_at self False 0, pos_at self False 1], v := [vel_at self False 0, w']\<rparr>
             = tight_ring\<lparr>s := [real (Suc k) / 2, x + w' * (1 / 20)], v := [10, w']\<rparr>"
    unfolding p0 p1 v0 by (simp add: self)
  have sk: "real (Suc k) = real k + 1" by simp
  have "tight_inv (Suc k) (tight_ring\<lparr>s := [real (Suc k) / 2, x + w' * (1 / 20)], v := [10, w']\<rparr>)"
    unfolding tight_inv_def
  proof (intro exI conjI)
    show "tight_ring\<lparr>s := [real (Suc k) / 2, x + w' * (1 / 20)], v := [10, w']\<rparr>
          = tight_ring\<lparr>s := [real (Suc k) / 2, x + w' * (1 / 20)], v := [10, w']\<rparr>" ..
    show "0 \<le> w'" by (rule w'lo)
    show "w' \<le> (real (Suc k) - 1) / 20" unfolding sk using w'hi w(2) by argo
    show "5 \<le> x + w' * (1 / 20)" using x(1) w'lo by argo
    show "x + w' * (1 / 20) \<le> 5 + (real (Suc k) - 1) / 40" unfolding sk using x(2) w'half by argo
  qed
  then show ?thesis using run new by simp
qed

lemma tight_run:
  assumes "1 \<le> k" "k \<le> 11"
  shows "\<exists>self'. run_steps tight_ring (run_times tight_params k) = Inr self' \<and> tight_inv k self'"
  using assms
proof (induction k)
  case 0
  then show ?case by simp
next
  case (Suc k)
  show ?case
  proof (cases "k = 0")
    case True
    have "tight_inv 1 (tight_ring\<lparr>s := [0.5, 5], v := [10, 0]\<rparr>)"
      unfolding tight_inv_def
      by (intro exI [of _ 5] exI [of _ 0]) simp
    then show ?thesis using True tight_first_step by (simp add: run_times_def)
  next
    case False
    then obtain m where m: "run_steps tight_ring (run_times tight_params k) = Inr m"
        "tight_inv k m"
      using Suc by auto
    have dt: "DT tight_params = DT m"
      using m(2) by (auto simp: tight_inv_def tight_params_def simulacionPoo_params_def tight_ring_def)
    obtain self' where "run_step m (real k * DT m) = Inr self'" "tight_inv (Suc k) self'"
      using tight_step [OF _ _ m(2)] False Suc.prems by auto
    then show ?thesis using m(1) dt by (simp add: run_times_Suc run_steps_snoc)
  qed
qed

lemma tight_follower_gap_11:
  "\<exists>g. gap_after tight_params (run_times tight_params 11) 1 = Inr g \<and> g < 0"
proof -
  obtain self' where r: "run_steps tight_ring (run_times tight_params 11) = Inr self'"
      and i: "tight_inv 11 self'"
    using tight_run [of 11] by auto
  obtain x w where self: "self' = tight_ring\<lparr>s := [real 11 / 2, x], v := [10, w]\<rparr>"
    and x: "5 \<le> x" "x \<le> 5 + (real 11 - 1) / 40"
    using i unfolding tight_inv_def by blast
  have "get_gap self' 1 (s self') = Inr (11 / 2 - x - 4)"
    using x by (simp add: self tight_ring_def get_gap_def np_get_def Let_def)
  then have "gap_after tight_params (run_times tight_params 11) 1 = Inr (11 / 2 - x - 4)"
    using r by (simp add: gap_after_def tight_init)
  moreover have "11 / 2 - x - 4 < 0" using x by simp
  ultimately show ?thesis by blast
qed

section \<open>C2: gaps after a step\<close>

text \<open>
  C2 as claimed (in every state reached from the initial state by calls of
  \<open>run_step\<close>, every vehicle's gap to its leader is non-negative, the scripted
  leader's included) fails, in three ways.

  The leader: the anti-collision rule is guarded by \<open>i != 0\<close>, so nothing keeps
  vehicle 0 behind vehicle \<open>N - 1\<close>. In the run of \<open>simulacionPoo.py\<close> itself (its
  constants, the object built by \<open>__init__\<close>, calls at the times 0, \<open>DT\<close>, \<open>2 * DT\<close>,
  ...) the leader's gap is negative after 75 calls. On a ring of two vehicles it can
  be traced by hand: the follower brakes to a halt in the first step, the leader
  drives on at \<open>V0\<close>, and after the three steps at times 0, 0.05 and 0.1 the leader's
  gap is -0.5.

  A follower that is lapped: the rule measures the gap before the step and ignores
  where the leader goes. On the same ring of two vehicles the leader comes round onto
  the follower in the 11th call, and the follower's gap is negative after it.

  Vehicles longer than their spacing: with \<open>L_VEHICLE = 6\<close> on that ring the
  follower's gap is -1 in the initial state and -0.5 after the first call.
\<close>

theorem gap_negative_counterexample:
  "\<not> isl (gap_after simulacionPoo_params (run_times simulacionPoo_params 75) 0) \<and>
   projr (gap_after simulacionPoo_params (run_times simulacionPoo_params 75) 0) < 0 \<and>
   init tight_params = Inr tight_ring \<and>
   run_steps tight_ring [0, 0.05, 0.1] = Inr (tight_ring\<lparr>s := [1.5, 5], v := [10, 0]\<rparr>) \<and>
   get_gap (tight_ring\<lparr>s := [1.5, 5], v := [10, 0]\<rparr>) 0 [1.5, 5] = Inr (- 0.5) \<and>
   \<not> isl (gap_after tight_params (run_times tight_params 11) 1) \<and>
   projr (gap_after tight_params (run_times tight_params 11) 1) < 0 \<and>
   init (tight_params\<lparr>L_VEHICLE := 6\<rparr>) = Inr (tight_ring\<lparr>L_VEHICLE := 6\<rparr>) \<and>
   get_gap (tight_ring\<lparr>L_VEHICLE := 6\<rparr>) 1 [0, 5] = Inr (- 1) \<and>
   run_step (tight_ring\<lparr>L_VEHICLE := 6\<rparr>) 0
     = Inr (tight_ring\<lparr>L_VEHICLE := 6, s := [0.5, 5], v := [10, 0]\<rparr>) \<and>
   get_gap (tight_ring\<lparr>L_VEHICLE := 6, s := [0.5, 5], v := [10, 0]\<rparr>) 1 [0.5, 5] = Inr (- 0.5)"
proof -
  have s1: "run_step tight_ring 0 = Inr (tight_ring\<lparr>s := [0.5, 5], v := [10, 0]\<rparr>)"
    by (rule tight_first_step)
  have s2: "run_step (tight_ring\<lparr>s := [0.5, 5], v := [10, 0]\<rparr>) 0.05
              = Inr (tight_ring\<lparr>s := [1, 5], v := [10, 0]\<rparr>)"
    by (simp add: tight_ring_def eval_defs)
  have s3: "run_step (tight_ring\<lparr>s := [1, 5], v := [10, 0]\<rparr>) 0.1
              = Inr (tight_ring\<lparr>s := [1.5, 5], v := [10, 0]\<rparr>)"
    by (simp add: tight_ring_def eval_defs)
  have g: "get_gap (tight_ring\<lparr>s := [1.5, 5], v := [10, 0]\<rparr>) 0 [1.5, 5] = Inr (- 0.5)"
    by (simp add: tight_ring_def eval_defs)
  obtain g75 where p: "gap_after simulacionPoo_params (run_times simulacionPoo_params 75) 0 = Inr g75"
      "g75 < 0"
    using poo_gap_75 by blast
  obtain g11 where f: "gap_after tight_params (run_times tight_params 11) 1 = Inr g11"
      "g11 < 0"
    using tight_follower_gap_11 by blast
  have li: "init (tight_params\<lparr>L_VEHICLE := 6\<rparr>) = Inr (tight_ring\<lparr>L_VEHICLE := 6\<rparr>)"
    by (simp add: init_def tight_params_def simulacionPoo_params_def tight_ring_def
        np_linspace0_def np_ones_times_def bind_err_def upt_rec numeral_2_eq_2)
  have lg0: "get_gap (tight_ring\<lparr>L_VEHICLE := 6\<rparr>) 1 [0, 5] = Inr (- 1)"
    by (simp add: tight_ring_def eval_defs)
  have ls: "run_step (tight_ring\<lparr>L_VEHICLE := 6\<rparr>) 0
     = Inr (tight_ring\<lparr>L_VEHICLE := 6, s := [0.5, 5], v := [10, 0]\<rparr>)"
    by (simp add: tight_ring_def eval_defs)
  have lg: "get_gap (tight_ring\<lparr>L_VEHICLE := 6, s := [0.5, 5], v := [10, 0]\<rparr>) 1 [0.5, 5]
              = Inr (- 0.5)"
    by (simp add: tight_ring_def eval_defs)
  show ?thesis using tight_init s1 s2 s3 g p f li lg0 ls lg by simp
qed

text \<open>
  C2 as amended. For valid parameters whose initial gaps are non-negative
  (\<open>L_VEHICLE \<le> CIRC - CIRC / N\<close>) and every follower \<open>i \<noteq> 0\<close>: \<open>__init__\<close> returns an
  object, and in every state reached from it by calls of \<open>run_step\<close> in none of which
  the leader of vehicle \<open>i\<close> comes round the ring onto it, the calls have returned and
  the gap of vehicle \<open>i\<close> to its leader is non-negative. Nothing is said of the
  scripted leader's own gap.
\<close>

theorem follower_gaps_nonnegative:
  assumes "valid_params p" "0 < i" "int i < N p"
    and "L_VEHICLE p \<le> CIRC p - CIRC p / of_int (N p)"
  shows "\<exists>self0. init p = Inr self0 \<and>
           (\<forall>ts. no_lapping self0 ts i \<longrightarrow>
              (\<exists>self' g. run_steps self0 ts = Inr self' \<and>
                 get_gap self' (int i) (s self') = Inr g \<and> 0 \<le> g))"
proof -
  obtain self0 where i: "init p = Inr self0" "valid_params self0" "wf_state self0"
    "in_ring self0" "params.truncate self0 = p"
    using init_valid [OF assms(1)] by blast
  have N: "N self0 = N p" using i(5) by (auto simp: params.truncate_def)
  have ii: "i < nat (N self0)" using assms(2,3) N by simp
  have g0: "0 \<le> gap_at self0 i"
    using init_follower_gap [OF assms(1) i(1) assms(2,3)] assms(4) by simp
  have "\<exists>self' g. run_steps self0 ts = Inr self' \<and>
                 get_gap self' (int i) (s self') = Inr g \<and> 0 \<le> g"
    if nl: "no_lapping self0 ts i" for ts
  proof -
    obtain self' where r: "run_steps self0 ts = Inr self'" "wf_state self'"
      "N self' = N self0" "0 \<le> gap_at self' i"
      using follower_gap_run [OF i(2,3,4) assms(2) ii g0 nl] by blast
    have "get_gap self' (int i) (s self') = Inr (gap_at self' i)"
      using get_gap_nat [OF r(2), of i] ii r(3) by simp
    then show ?thesis using r by blast
  qed
  then show ?thesis using i(1) by blast
qed

theorem follower_gaps_nonnegative_witness:
  "valid_params tight_params \<and> (0::nat) < 1 \<and> int 1 < N tight_params \<and>
   L_VEHICLE tight_params \<le> CIRC tight_params - CIRC tight_params / of_int (N tight_params) \<and>
   init tight_params = Inr tight_ring \<and>
   no_lapping tight_ring [0, 0.05, 0.1] 1 \<and>
   (\<exists>self' g. run_steps tight_ring [0, 0.05, 0.1] = Inr self' \<and>
      get_gap self' (int 1) (s self') = Inr g \<and> 0 \<le> g)"
proof -
  have h: "valid_params tight_params" "(0::nat) < 1" "int 1 < N tight_params"
    "L_VEHICLE tight_params \<le> CIRC tight_params - CIRC tight_params / of_int (N tight_params)"
    by (simp_all add: tight_params_def simulacionPoo_params_def valid_params_def)
  have s1: "run_step tight_ring 0 = Inr (tight_ring\<lparr>s := [1 / 2, 5], v := [10, 0]\<rparr>)"
    using tight_first_step by simp
  have s2: "run_step (tight_ring\<lparr>s := [1 / 2, 5], v := [10, 0]\<rparr>) (1 / 20)
              = Inr (tight_ring\<lparr>s := [1, 5], v := [10, 0]\<rparr>)"
    by (simp add: tight_ring_def eval_defs)
  have s3: "run_step (tight_ring\<lparr>s := [1, 5], v := [10, 0]\<rparr>) (1 / 10)
              = Inr (tight_ring\<lparr>s := [3 / 2, 5], v := [10, 0]\<rparr>)"
    by (simp add: tight_ring_def eval_defs)
  have g: "get_gap tight_ring 1 (s tight_ring) = Inr 1"
    "get_gap (tight_ring\<lparr>s := [1 / 2, 5], v := [10, 0]\<rparr>) 1 [1 / 2, 5] = Inr (3 / 2)"
    "get_gap (tight_ring\<lparr>s := [1, 5], v := [10, 0]\<rparr>) 1 [1, 5] = Inr 2"
    by (simp_all add: tight_ring_def eval_defs)
  have sel: "L_VEHICLE tight_ring = 4" "DT tight_ring = 1 / 20" "CIRC tight_ring = 10"
    by (simp_all add: tight_ring_def)
  have nl: "no_lapping tight_ring [0, 0.05, 0.1] 1"
    by (simp add: g s1 s2 s3 sel)
  obtain self0 where i: "init tight_params = Inr self0"
    and r: "\<forall>ts. no_lapping self0 ts 1 \<longrightarrow>
              (\<exists>self' g. run_steps self0 ts = Inr self' \<and>
                 get_gap self' (int 1) (s self') = Inr g \<and> 0 \<le> g)"
    using follower_gaps_nonnegative [OF h] by blast
  have "self0 = tight_ring" using i tight_init by simp
  then show ?thesis using h nl r tight_init by blast
qed

section \<open>C3: positions stay on the ring\<close>

text \<open>
  C3. For valid parameters \<open>__init__\<close> returns an object, every sequence of calls of
  \<open>run_step\<close> on it returns, and in the initial state and after every call each
  position \<open>s[i]\<close> satisfies \<open>0 \<le> s[i] < CIRC\<close>, the pinned leader's included.
\<close>

theorem positions_in_ring:
  assumes "valid_params p"
  shows "\<exists>self0. init p = Inr self0 \<and>
           (\<forall>ts. \<exists>self'. run_steps self0 ts = Inr self' \<and>
              (\<forall>i<nat (N p). 0 \<le> s self' ! i \<and> s self' ! i < CIRC p))"
proof -
  obtain self0 where i: "init p = Inr self0" "valid_params self0" "wf_state self0"
    "in_ring self0" "params.truncate self0 = p"
    using init_valid [OF assms] by blast
  have "\<exists>self'. run_steps self0 ts = Inr self' \<and>
              (\<forall>i<nat (N p). 0 \<le> s self' ! i \<and> s self' ! i < CIRC p)" for ts
  proof -
    obtain self' where r: "run_steps self0 ts = Inr self'" "in_ring self'"
      "params.truncate self' = params.truncate self0"
      using run_steps_in_ring [OF i(2,3,4)] by blast
    have "N self' = N p" "CIRC self' = CIRC p"
      using r(3) i(5) by (auto simp: params.truncate_def)
    then show ?thesis using r by (auto simp: in_ring_def)
  qed
  then show ?thesis using i(1) by blast
qed

theorem positions_in_ring_witness:
  "valid_params simulacionPoo_params \<and>
   (\<exists>self0. init simulacionPoo_params = Inr self0 \<and>
      (\<forall>ts. \<exists>self'. run_steps self0 ts = Inr self' \<and>
         (\<forall>i<nat (N simulacionPoo_params). 0 \<le> s self' ! i \<and> s self' ! i < CIRC simulacionPoo_params)))"
  using positions_in_ring [of simulacionPoo_params]
  by (simp add: valid_params_def simulacionPoo_params_def)

section \<open>C4: velocities are never negative\<close>

text \<open>
  C4. Starting from any well-formed object with valid parameters, after every call of
  \<open>run_step\<close> (the last call of any non-empty sequence of calls, at any times) the call
  has returned and every vehicle's velocity is at least 0.
\<close>

theorem velocities_nonnegative:
  assumes "valid_params self" "wf_state self"
  shows "\<exists>self'. run_steps self (ts @ [t]) = Inr self' \<and>
           (\<forall>i<nat (N self). 0 \<le> v self' ! i)"
proof -
  obtain m where m: "run_steps self ts = Inr m" "valid_params m" "wf_state m"
    "params.truncate m = params.truncate self"
    using run_steps_valid [OF assms] by blast
  then have N: "N m = N self" by (simp add: params.truncate_def)
  from run_step_valid [OF m(2,3), of t] show ?thesis
    using m(1) N by (auto simp: run_steps_snoc vel_at_nonneg)
qed

theorem velocities_nonnegative_witness:
  "valid_params ring3 \<and> wf_state ring3 \<and>
   (\<exists>self'. run_steps ring3 ([0] @ [0.05]) = Inr self' \<and>
      0 \<le> v self' ! 0 \<and> 0 \<le> v self' ! 1 \<and> 0 \<le> v self' ! 2)"
  using velocities_nonnegative [of ring3 "[0]" "0.05"]
  by (auto simp: ring3_def valid_params_def wf_state_def)

section \<open>C5: the leader's schedule\<close>

lemma floor_mod_window:
  fixes e r d :: real
  assumes r: "0 < r" and e: "0 \<le> e"
  shows "e - r * of_int \<lfloor>e / r\<rfloor> < d \<longleftrightarrow> (\<exists>k::nat. real k * r \<le> e \<and> e < real k * r + d)"
proof
  assume l: "e - r * of_int \<lfloor>e / r\<rfloor> < d"
  have "0 \<le> e / r" using r e by simp
  then have f: "0 \<le> \<lfloor>e / r\<rfloor>" by simp
  have "of_int \<lfloor>e / r\<rfloor> \<le> e / r" by linarith
  then have "of_int \<lfloor>e / r\<rfloor> * r \<le> e" using r by (simp only: pos_le_divide_eq)
  then have "real (nat \<lfloor>e / r\<rfloor>) * r \<le> e \<and> e < real (nat \<lfloor>e / r\<rfloor>) * r + d"
    using l f by (simp add: algebra_simps)
  then show "\<exists>k::nat. real k * r \<le> e \<and> e < real k * r + d" by blast
next
  assume "\<exists>k::nat. real k * r \<le> e \<and> e < real k * r + d"
  then obtain k :: nat where k: "real k * r \<le> e" "e < real k * r + d" by blast
  from k(1) have "real k \<le> e / r" using r by (simp add: pos_le_divide_eq)
  then have "int k \<le> \<lfloor>e / r\<rfloor>" by (simp add: le_floor_iff)
  then have "real k \<le> of_int \<lfloor>e / r\<rfloor>" by linarith
  then have "real k * r \<le> of_int \<lfloor>e / r\<rfloor> * r" using r by simp
  then show "e - r * of_int \<lfloor>e / r\<rfloor> < d" using k(2) by (simp add: algebra_simps)
qed

text \<open>
  C5. \<open>leader_stopped t\<close> is false for every \<open>t < FIRST_STOP\<close>; for \<open>t \<ge> FIRST_STOP\<close>
  (and a nonzero \<open>REPEAT_INTERVAL\<close>) it is true if and only if
  \<open>(t - FIRST_STOP) mod REPEAT_INTERVAL < STOP_DURATION\<close>, the remainder being the
  floored one. For a positive \<open>REPEAT_INTERVAL\<close> this is the square wave: it is true
  exactly in the windows of length \<open>STOP_DURATION\<close> that start at
  \<open>FIRST_STOP + k * REPEAT_INTERVAL\<close>.
\<close>

theorem leader_stopped_schedule:
  "(t < FIRST_STOP self \<longrightarrow> leader_stopped self t = Inr False) \<and>
   (FIRST_STOP self \<le> t \<and> REPEAT_INTERVAL self \<noteq> 0 \<longrightarrow>
      leader_stopped self t =
        Inr ((t - FIRST_STOP self)
               - REPEAT_INTERVAL self * of_int \<lfloor>(t - FIRST_STOP self) / REPEAT_INTERVAL self\<rfloor>
             < STOP_DURATION self)) \<and>
   (0 < REPEAT_INTERVAL self \<longrightarrow>
      (leader_stopped self t = Inr True \<longleftrightarrow>
        (\<exists>k::nat. FIRST_STOP self + real k * REPEAT_INTERVAL self \<le> t \<and>
                  t < FIRST_STOP self + real k * REPEAT_INTERVAL self + STOP_DURATION self)))"
proof (intro conjI impI)
  assume "t < FIRST_STOP self"
  then show "leader_stopped self t = Inr False"
    by (simp add: leader_stopped_def Let_def)
next
  assume "FIRST_STOP self \<le> t \<and> REPEAT_INTERVAL self \<noteq> 0"
  then show "leader_stopped self t =
        Inr ((t - FIRST_STOP self)
               - REPEAT_INTERVAL self * of_int \<lfloor>(t - FIRST_STOP self) / REPEAT_INTERVAL self\<rfloor>
             < STOP_DURATION self)"
    by (simp add: leader_stopped_def float_mod_def Let_def)
next
  assume r: "0 < REPEAT_INTERVAL self"
  show "leader_stopped self t = Inr True \<longleftrightarrow>
        (\<exists>k::nat. FIRST_STOP self + real k * REPEAT_INTERVAL self \<le> t \<and>
                  t < FIRST_STOP self + real k * REPEAT_INTERVAL self + STOP_DURATION self)"
  proof (cases "FIRST_STOP self \<le> t")
    case True
    then have e: "0 \<le> t - FIRST_STOP self" by simp
    have "leader_stopped self t = Inr True \<longleftrightarrow>
          (t - FIRST_STOP self)
               - REPEAT_INTERVAL self * of_int \<lfloor>(t - FIRST_STOP self) / REPEAT_INTERVAL self\<rfloor>
             < STOP_DURATION self"
      using True r by (simp add: leader_stopped_def float_mod_def Let_def)
    also have "\<dots> \<longleftrightarrow> (\<exists>k::nat. real k * REPEAT_INTERVAL self \<le> t - FIRST_STOP self \<and>
                  t - FIRST_STOP self < real k * REPEAT_INTERVAL self + STOP_DURATION self)"
      by (rule floor_mod_window [OF r e])
    also have "\<dots> \<longleftrightarrow> (\<exists>k::nat. FIRST_STOP self + real k * REPEAT_INTERVAL self \<le> t \<and>
                  t < FIRST_STOP self + real k * REPEAT_INTERVAL self + STOP_DURATION self)"
      by (simp add: algebra_simps)
    finally show ?thesis .
  next
    case False
    have "\<not> (FIRST_STOP self + real k * REPEAT_INTERVAL self \<le> t)" for k :: nat
    proof -
      have "0 \<le> real k * REPEAT_INTERVAL self" using r by simp
      then show ?thesis using False by linarith
    qed
    then show ?thesis using False by (simp add: leader_stopped_def Let_def)
  qed
qed

theorem leader_stopped_schedule_witness:
  "leader_stopped ring3 1 = Inr False \<and> leader_stopped ring3 13 = Inr True \<and>
   leader_stopped ring3 14 = Inr False \<and>
   (\<exists>k::nat. FIRST_STOP ring3 + real k * REPEAT_INTERVAL ring3 \<le> 13 \<and>
        13 < FIRST_STOP ring3 + real k * REPEAT_INTERVAL ring3 + STOP_DURATION ring3)"
  using leader_stopped_schedule [of 1 ring3] leader_stopped_schedule [of 13 ring3]
    leader_stopped_schedule [of 14 ring3]
  by (auto simp: ring3_def)

section \<open>C7: a single vehicle\<close>

lemma get_gap_single:
  assumes "wf_state self" "N self = 1"
  shows "get_gap self 0 (s self) = Inr (- L_VEHICLE self)"
  using assms by (simp add: get_gap_def wf_state_def)

text \<open>
  C7 as claimed (with \<open>N = 1\<close> the gap of vehicle 0 is \<open>CIRC - L_VEHICLE\<close>) fails: the
  vehicle is its own leader, the distance to itself is 0, and \<open>get_gap\<close> wraps a
  distance only when it is negative, so the gap is \<open>- L_VEHICLE\<close>: -4 and not 226 for
  the constants of \<open>simulacionPoo.py\<close>.
\<close>

theorem single_vehicle_gap_counterexample:
  "init (simulacionPoo_params\<lparr>N := 1\<rparr>) = Inr single_vehicle \<and>
   get_gap single_vehicle 0 (s single_vehicle) = Inr (- 4) \<and>
   get_gap single_vehicle 0 (s single_vehicle)
     \<noteq> Inr (CIRC single_vehicle - L_VEHICLE single_vehicle)"
  by (simp add: init_def simulacionPoo_params_def single_vehicle_def np_linspace0_def
      np_ones_times_def bind_err_def get_gap_def np_get_def Let_def)

text \<open>
  C7 as amended. With \<open>N = 1\<close>, valid parameters and a well-formed object, every
  sequence of calls of \<open>run_step\<close> returns (no division by zero, no other exception),
  and the gap of vehicle 0 is \<open>- L_VEHICLE\<close> in every state of the run.
\<close>

theorem single_vehicle_gap:
  assumes "valid_params self" "wf_state self" "N self = 1"
  shows "\<exists>self'. run_steps self ts = Inr self' \<and>
           get_gap self' 0 (s self') = Inr (- L_VEHICLE self)"
proof -
  obtain self' where r: "run_steps self ts = Inr self'" "wf_state self'"
    "params.truncate self' = params.truncate self"
    using run_steps_valid [OF assms(1,2)] by blast
  then have "N self' = 1" "L_VEHICLE self' = L_VEHICLE self"
    using assms(3) by (auto simp: params.truncate_def)
  then show ?thesis using r get_gap_single [of self'] by simp
qed

theorem single_vehicle_gap_witness:
  "valid_params single_vehicle \<and> wf_state single_vehicle \<and> N single_vehicle = 1 \<and>
   (\<exists>self'. run_steps single_vehicle [0, 0.05, 2, 2.05] = Inr self' \<and>
           get_gap self' 0 (s self') = Inr (- 4))"
  using single_vehicle_gap [of single_vehicle "[0, 0.05, 2, 2.05]"]
  by (simp add: single_vehicle_def valid_params_def wf_state_def)

section \<open>C8: the pinned leader\<close>

text \<open>
  C8. If \<open>leader_stopped t\<close> is true and vehicle 0's velocity is 0, then \<open>run_step t\<close>
  returns, vehicle 0's velocity is 0 and its position unchanged, and every other
  vehicle has the velocity and position of the Euler step with the IDM acceleration
  and the anti-collision rule.
\<close>

theorem pinned_leader_frame:
  assumes "valid_params self" "wf_state self"
    and "leader_stopped self t = Inr True" "v self ! 0 = 0"
  shows "\<exists>self'. run_step self t = Inr self' \<and>
           v self' ! 0 = 0 \<and> s self' ! 0 = s self ! 0 \<and>
           (\<forall>i. 0 < i \<and> int i < N self \<longrightarrow>
              (\<exists>g a. get_gap self (int i) (s self) = Inr g \<and>
                     idm_accel self (v self ! i) (v self ! (i - 1)) g = Inr a \<and>
                     v self' ! i =
                       (let v1 = max 0 (v self ! i + a * DT self)
                        in if v1 * DT self > g - 0.5 then max 0 ((g - 0.5) / DT self) else v1) \<and>
                     s self' ! i = np_mod (s self ! i + v self' ! i * DT self) (CIRC self)))"
proof -
  let ?n = "nat (N self)"
  let ?m = "self\<lparr>s := map (pos_at self True) [0..<?n], v := map (vel_at self True) [0..<?n]\<rparr>"
  have r: "run_step self t = Inr ?m"
    using run_step_valid [OF assms(1,2), of t] assms(3) by auto
  have n: "0 < ?n" using assms(1) by (simp add: valid_params_def)
  have p: "pinned self True 0" using assms(4) by (simp add: pinned_def)
  have lead: "v ?m ! 0 = 0" "s ?m ! 0 = s self ! 0"
    using n p by (simp_all add: vel_at_def pos_at_def)
  have foll: "\<exists>g a. get_gap self (int i) (s self) = Inr g \<and>
                     idm_accel self (v self ! i) (v self ! (i - 1)) g = Inr a \<and>
                     v ?m ! i =
                       (let v1 = max 0 (v self ! i + a * DT self)
                        in if v1 * DT self > g - 0.5 then max 0 ((g - 0.5) / DT self) else v1) \<and>
                     s ?m ! i = np_mod (s self ! i + v ?m ! i * DT self) (CIRC self)"
    if i: "0 < i \<and> int i < N self" for i
  proof -
    have k: "i < ?n" "i \<noteq> 0" using i by auto
    have np: "\<not> pinned self True i" using k by (simp add: pinned_def)
    have "v ?m ! i =
            (let v1 = max 0 (v self ! i + acc_at self True i * DT self)
             in if v1 * DT self > gap_at self i - 0.5
                then max 0 ((gap_at self i - 0.5) / DT self) else v1)"
      using k np by (simp add: vel_at_def)
    moreover have "s ?m ! i = np_mod (s self ! i + v ?m ! i * DT self) (CIRC self)"
      using k np by (simp add: pos_at_def)
    ultimately show ?thesis
      using get_gap_nat [OF assms(2) k(1)] idm_accel_valid [OF assms(1,2), of i True] i
      by blast
  qed
  show ?thesis using r lead foll by blast
qed

theorem pinned_leader_frame_witness:
  "valid_params ring3 \<and> wf_state ring3 \<and> leader_stopped ring3 2 = Inr True \<and>
   v ring3 ! 0 = 0 \<and>
   (\<exists>self'. run_step ring3 2 = Inr self' \<and> v self' ! 0 = 0 \<and> s self' ! 0 = 0 \<and>
      v self' ! 1 = 4 / 81 \<and> s self' ! 1 = 10 + 1 / 405)"
proof -
  have h: "valid_params ring3" "wf_state ring3" "leader_stopped ring3 2 = Inr True"
    "v ring3 ! 0 = 0"
    by (simp_all add: ring3_def valid_params_def wf_state_def leader_stopped_def float_mod_def
        bind_err_def)
  have g: "get_gap ring3 (int 1) (s ring3) = Inr 18"
    by (simp add: ring3_def get_gap_def np_get_def bind_err_def Let_def)
  have a: "idm_accel ring3 (v ring3 ! 1) (v ring3 ! (1 - 1)) 18 = Inr (80 / 81)"
    by (simp add: ring3_def idm_accel_def math_sqrt_def bind_err_def Let_def power_divide)
  obtain self' where r: "run_step ring3 2 = Inr self'" "v self' ! 0 = 0"
    "s self' ! 0 = s ring3 ! 0"
    and f: "\<forall>i. 0 < i \<and> int i < N ring3 \<longrightarrow>
              (\<exists>g a. get_gap ring3 (int i) (s ring3) = Inr g \<and>
                     idm_accel ring3 (v ring3 ! i) (v ring3 ! (i - 1)) g = Inr a \<and>
                     v self' ! i =
                       (let v1 = max 0 (v ring3 ! i + a * DT ring3)
                        in if v1 * DT ring3 > g - 0.5 then max 0 ((g - 0.5) / DT ring3) else v1) \<and>
                     s self' ! i = np_mod (s ring3 ! i + v self' ! i * DT ring3) (CIRC ring3))"
    using pinned_leader_frame [OF h] by blast
  have i1: "0 < (1::nat) \<and> int 1 < N ring3" by (simp add: ring3_def)
  from f i1 obtain g' a' where ga: "get_gap ring3 (int 1) (s ring3) = Inr g'"
      "idm_accel ring3 (v ring3 ! 1) (v ring3 ! (1 - 1)) g' = Inr a'"
      "v self' ! 1 =
         (let v1 = max 0 (v ring3 ! 1 + a' * DT ring3)
          in if v1 * DT ring3 > g' - 0.5 then max 0 ((g' - 0.5) / DT ring3) else v1)"
      "s self' ! 1 = np_mod (s ring3 ! 1 + v self' ! 1 * DT ring3) (CIRC ring3)"
    by blast
  have g': "g' = 18" using ga(1) g by simp
  have a': "a' = 80 / 81" using ga(2) a unfolding g' by simp
  have v1: "v self' ! 1 = 4 / 81"
    using ga(3) unfolding g' a' by (simp add: ring3_def Let_def)
  have "s self' ! 1 = 10 + 1 / 405"
    using ga(4) unfolding v1 by (simp add: ring3_def np_mod_def)
  with v1 have "v self' ! 1 = 4 / 81 \<and> s self' ! 1 = 10 + 1 / 405" by simp
  then show ?thesis using h r(1,2) r(3) by (simp add: ring3_def)
qed

section \<open>C9: construction checks nothing\<close>

text \<open>
  C9 as claimed (construction raises a configuration error for \<open>N < 1\<close>,
  \<open>CIRC \<le> 0\<close>, \<open>DT \<le> 0\<close>, \<open>REPEAT_INTERVAL \<le> 0\<close> or negative constants) fails:
  \<open>__init__\<close> takes its values as they are and has no check, in either file. With no
  vehicle, a ring of length 0, a time step and a repeat interval of 0 and a negative
  desired speed it returns an object.
\<close>

theorem init_accepts_malformed_counterexample:
  "\<not> isl (init (simulacionPoo_params\<lparr>N := 0, CIRC := 0, DT := 0, V0 := - 1, REPEAT_INTERVAL := 0\<rparr>))"
  by (simp add: init_def simulacionPoo_params_def np_linspace0_def np_ones_times_def bind_err_def)

text \<open>
  C9 as amended. Construction checks nothing: for every parameter set with \<open>N \<ge> 0\<close>
  it returns an object holding these parameters, and a negative \<open>N\<close> makes numpy raise
  ValueError. For valid parameters construction returns and no call of \<open>run_step\<close>
  raises, whatever the sequence of times.
\<close>

theorem init_checks_nothing:
  "(0 \<le> N p \<longrightarrow> (\<exists>self0. init p = Inr self0 \<and> params.truncate self0 = p)) \<and>
   (N p < 0 \<longrightarrow> init p = Inl ValueError) \<and>
   (valid_params p \<longrightarrow>
      (\<exists>self0. init p = Inr self0 \<and> (\<forall>ts. \<exists>self'. run_steps self0 ts = Inr self')))"
proof (intro conjI impI)
  assume "0 \<le> N p"
  then show "\<exists>self0. init p = Inr self0 \<and> params.truncate self0 = p"
    by (simp add: init_def np_linspace0_def np_ones_times_def params.truncate_def)
next
  assume "N p < 0"
  then show "init p = Inl ValueError"
    by (simp add: init_def np_linspace0_def)
next
  assume "valid_params p"
  then obtain self0 where i: "init p = Inr self0" "valid_params self0" "wf_state self0"
    using init_valid by blast
  have "\<exists>self'. run_steps self0 ts = Inr self'" for ts
    using run_steps_valid [OF i(2,3), of ts] by blast
  then show "\<exists>self0. init p = Inr self0 \<and> (\<forall>ts. \<exists>self'. run_steps self0 ts = Inr self')"
    using i(1) by blast
qed

theorem init_checks_nothing_witness:
  "(\<exists>self0. init (simulacionPoo_params\<lparr>N := 0, CIRC := - 1\<rparr>) = Inr self0) \<and>
   init (simulacionPoo_params\<lparr>N := - 1\<rparr>) = Inl ValueError \<and>
   valid_params ScriptFinal_params \<and>
   (\<exists>self0. init ScriptFinal_params = Inr self0 \<and>
       (\<forall>ts. \<exists>self'. run_steps self0 ts = Inr self'))"
  using init_checks_nothing [of "simulacionPoo_params\<lparr>N := 0, CIRC := - 1\<rparr>"]
    init_checks_nothing [of "simulacionPoo_params\<lparr>N := - 1\<rparr>"]
    init_checks_nothing [of ScriptFinal_params]
  by (auto simp: simulacionPoo_params_def ScriptFinal_params_def valid_params_def)

section \<open>C10: the leader does not depend on the followers\<close>

text \<open>
  C10. For every time \<open>t\<close> and every two well-formed objects with the same valid
  parameters that agree on vehicle 0's position and velocity, \<open>run_step t\<close> returns on
  both and gives vehicle 0 the same position and velocity: its velocity is the Euler
  step of the scripted acceleration floored at 0 (or the pinned 0), its position the
  Euler step from it, with no anti-collision rule.
\<close>

theorem leader_independent_of_followers:
  assumes "valid_params self" "wf_state self"
    and "length xs = nat (N self)" "length vs = nat (N self)"
    and "xs ! 0 = s self ! 0" "vs ! 0 = v self ! 0"
  shows "\<exists>p0 a b. leader_stopped self t = Inr p0 \<and>
           run_step self t = Inr a \<and> run_step (self\<lparr>s := xs, v := vs\<rparr>) t = Inr b \<and>
           s b ! 0 = s a ! 0 \<and> v b ! 0 = v a ! 0 \<and>
           v a ! 0 =
             (if p0 then (if v self ! 0 > 0 then max 0 (v self ! 0 + (- 10) * DT self) else 0)
              else max 0 (v self ! 0 + A_MAX self * (1 - (v self ! 0 / V0 self) ^ 4) * DT self)) \<and>
           s a ! 0 =
             (if p0 \<and> \<not> v self ! 0 > 0 then s self ! 0
              else np_mod (s self ! 0 + v a ! 0 * DT self) (CIRC self))"
proof -
  let ?o = "self\<lparr>s := xs, v := vs\<rparr>"
  let ?n = "nat (N self)"
  have n: "0 < ?n" using assms(1) by (simp add: valid_params_def)
  have vo: "valid_params ?o" "wf_state ?o"
    using assms by (simp_all add: valid_params_step wf_state_def)
  obtain p0 where p0: "leader_stopped self t = Inr p0"
    and a: "run_step self t = Inr (self\<lparr>s := map (pos_at self p0) [0..<?n],
                                       v := map (vel_at self p0) [0..<?n]\<rparr>)"
    using run_step_valid [OF assms(1,2)] by blast
  have b: "run_step ?o t = Inr (?o\<lparr>s := map (pos_at ?o p0) [0..<?n],
                                   v := map (vel_at ?o p0) [0..<?n]\<rparr>)"
    using run_step_valid [OF vo, of t] p0 by (auto simp: leader_stopped_state)
  have eq: "vel_at ?o p0 0 = vel_at self p0 0" "pos_at ?o p0 0 = pos_at self p0 0"
    using assms(5,6) by (simp_all add: vel_at_leader pos_at_leader)
  show ?thesis
    apply (rule exI [of _ p0])
    apply (rule exI [of _ "self\<lparr>s := map (pos_at self p0) [0..<?n], v := map (vel_at self p0) [0..<?n]\<rparr>"])
    apply (rule exI [of _ "?o\<lparr>s := map (pos_at ?o p0) [0..<?n], v := map (vel_at ?o p0) [0..<?n]\<rparr>"])
    using p0 a b n eq vel_at_leader [of self p0] pos_at_leader [of self p0]
    by simp
qed

theorem leader_independent_of_followers_witness:
  "valid_params ring3 \<and> wf_state ring3 \<and>
   length [0, 5, 25 :: real] = nat (N ring3) \<and> length [0, 3, 7 :: real] = nat (N ring3) \<and>
   [0, 5, 25] ! 0 = s ring3 ! 0 \<and> [0, 3, 7] ! 0 = v ring3 ! 0 \<and>
   (\<exists>a b. run_step ring3 0 = Inr a \<and>
      run_step (ring3\<lparr>s := [0, 5, 25], v := [0, 3, 7]\<rparr>) 0 = Inr b \<and>
      s b ! 0 = s a ! 0 \<and> v b ! 0 = v a ! 0 \<and> v a ! 0 = 1 / 20 \<and> s a ! 0 = 1 / 400)"
proof -
  have h: "valid_params ring3" "wf_state ring3"
    "length [0, 5, 25 :: real] = nat (N ring3)" "length [0, 3, 7 :: real] = nat (N ring3)"
    "[0, 5, 25] ! 0 = s ring3 ! 0" "[0, 3, 7] ! 0 = v ring3 ! 0"
    by (simp_all add: ring3_def valid_params_def wf_state_def)
  have p: "leader_stopped ring3 0 = Inr False"
    by (simp add: ring3_def leader_stopped_def)
  obtain p0 a b where r: "leader_stopped ring3 0 = Inr p0" "run_step ring3 0 = Inr a"
      "run_step (ring3\<lparr>s := [0, 5, 25], v := [0, 3, 7]\<rparr>) 0 = Inr b"
      "s b ! 0 = s a ! 0" "v b ! 0 = v a ! 0"
    and va: "v a ! 0 =
             (if p0 then (if v ring3 ! 0 > 0 then max 0 (v ring3 ! 0 + (- 10) * DT ring3) else 0)
              else max 0 (v ring3 ! 0 + A_MAX ring3 * (1 - (v ring3 ! 0 / V0 ring3) ^ 4) * DT ring3))"
    and sa: "s a ! 0 =
             (if p0 \<and> \<not> v ring3 ! 0 > 0 then s ring3 ! 0
              else np_mod (s ring3 ! 0 + v a ! 0 * DT ring3) (CIRC ring3))"
    using leader_independent_of_followers [OF h, of 0] by blast
  have p0: "\<not> p0" using p r(1) by simp
  have va': "v a ! 0 = 1 / 20" using va p0 by (simp add: ring3_def)
  have "s a ! 0 = 1 / 400" using sa p0 unfolding va' by (simp add: ring3_def np_mod_def)
  then show ?thesis using h r va' by auto
qed

end
